theory Spec2Isabelle
  imports Main "HOL-Library.AList"
begin

section \<open>Gateway bootstrap of the object store: data model\<close>

text \<open>
  The development embeds the gateway start-up code of package \<open>ais\<close>
  (\<open>bootstrap\<close>, \<open>determineRole\<close>, \<open>secondaryStartup\<close>, \<open>primaryStartup\<close>,
  \<open>acceptRegistrations\<close>, \<open>discoverMeta\<close>, \<open>uncoverMeta\<close>, \<open>bcastMaxVer\<close>).
  The cluster map is the Go type \<open>smapX\<close> (the specification calls it CMap), the
  bucket metadata is \<open>bucketMD\<close> (BMeta), a node is a \<open>cluster.Snode\<close>.  The Go
  declarations of these types are not part of the files at hand; the records below carry
  the fields the start-up code reads and writes, with the meaning the specification's
  data model gives them.  Versions are \<open>int64\<close> in the code and \<open>int\<close> here; the two
  places that add to a version wrap around explicitly.
\<close>

datatype daemon_type = Proxy | Target

record Snode =
  DaemonID :: string
  DaemonType :: daemon_type
  DirectURL :: string

text \<open>Go maps from node id to node are association lists with distinct keys;
  \<open>m[k] = v\<close> is \<open>AList.update k v m\<close> and \<open>len(m)\<close> is the length.\<close>

type_synonym NodeMap = "(string \<times> Snode) list"

record smapX =
  Tmap :: NodeMap
  Pmap :: NodeMap
  ProxySI :: "Snode option"
  Version :: int
  UUID :: string
  CreationTime :: string

record bucketMD =
  BVersion :: int
  BUUID :: string

text \<open>The wire response \<open>SmapVoteMsg\<close>; a nil pointer is \<open>None\<close>.\<close>

record SmapVoteMsg =
  VoteInProgress :: bool
  Smap :: "smapX option"
  BucketMD :: "bucketMD option"

text \<open>One element of the broadcast channel.  \<open>outjson\<close> holds the outcome of
  \<open>jsoniter.Unmarshal\<close> on the payload: \<open>None\<close> when decoding fails.\<close>

record callResult =
  si :: Snode
  err :: "string option"
  outjson :: "SmapVoteMsg option"

text \<open>Modelled from the spec: the accessors \<open>ID\<close>, \<open>IsTarget\<close>, \<open>CountTargets\<close>,
  \<open>CountProxies\<close> and \<open>GetProxy\<close> of nodes and cluster maps (a node's identity is its
  id and its kind, the counts are the sizes of the two node sets, a known gateway is
  one stored under its id); their source is not part of the files at hand.\<close>

definition ID :: "Snode \<Rightarrow> string" where
  "ID d = DaemonID d"

definition IsTarget :: "Snode \<Rightarrow> bool" where
  "IsTarget d = (DaemonType d = Target)"

definition CountTargets :: "smapX \<Rightarrow> nat" where
  "CountTargets m = length (Tmap m)"

definition CountProxies :: "smapX \<Rightarrow> nat" where
  "CountProxies m = length (Pmap m)"

definition GetProxy :: "smapX \<Rightarrow> string \<Rightarrow> Snode option" where
  "GetProxy m pid = map_of (Pmap m) pid"

text \<open>Modelled from the spec: \<open>newSmap\<close> (the specification's \<open>newEmpty()\<close>:
  version 0, empty uuid, no nodes); its source is not part of the files at hand.\<close>

definition newSmap :: smapX where
  "newSmap = \<lparr>Tmap = [], Pmap = [], ProxySI = None, Version = 0, UUID = [], CreationTime = []\<rparr>"

text \<open>Modelled from the spec: \<open>isPrimary\<close> (``self is its primary'': the map's
  primary is set and carries this node's id); its source is not part of the files
  at hand.\<close>

definition isPrimary :: "smapX \<Rightarrow> Snode \<Rightarrow> bool" where
  "isPrimary m self = (case ProxySI m of None \<Rightarrow> False | Some p \<Rightarrow> ID p = ID self)"

text \<open>\<open>m.Pmap[self.ID()] = self\<close>.\<close>

definition addProxy :: "Snode \<Rightarrow> smapX \<Rightarrow> smapX" where
  "addProxy self m = m\<lparr>Pmap := AList.update (ID self) self (Pmap m)\<rparr>"

text \<open>Every way the start-up code leaves the process or panics.\<close>

datatype error =
    ExitInvalidEnv
  | ExitCIE nat
  | ExitBmdUUIDSplit
  | ExitMerge "string option"
  | ExitJoin
  | ExitPersist
  | PanicAssert
  | PanicNilDeref

section \<open>The reducer \<open>bcastMaxVer\<close>\<close>

text \<open>The named results and locals of \<open>bcastMaxVer\<close>.  The two per-node maps
  are keyed by the responding node; a nil map argument is \<open>None\<close>.\<close>

record reduce_st =
  maxVerSmap :: "smapX option"
  maxVerBMD :: "bucketMD option"
  done' :: bool
  slowp :: bool
  borigin :: string
  sorigin :: string
  bmds :: "(Snode \<times> bucketMD) list option"
  smaps :: "(Snode \<times> smapX) list option"

text \<open>Lines 443--452: the bucket-metadata part of one decoded response.\<close>

definition reduceBMD :: "reduce_st \<Rightarrow> SmapVoteMsg \<Rightarrow> reduce_st" where
  "reduceBMD st svm =
     (case BucketMD svm of
        None \<Rightarrow> st
      | Some b \<Rightarrow>
          if 0 < BVersion b then
            (case maxVerBMD st of
               None \<Rightarrow> st\<lparr>borigin := BUUID b, maxVerBMD := Some b\<rparr>
             | Some mx \<Rightarrow>
                 if borigin st \<noteq> [] \<and> borigin st \<noteq> BUUID b then st\<lparr>slowp := True\<rparr>
                 else if \<not> slowp st \<and> BVersion mx < BVersion b
                   then st\<lparr>maxVerBMD := Some b, borigin := BUUID b\<rparr>
                 else st)
          else st)"

text \<open>Lines 463--472: the cluster-map part of one decoded response.\<close>

definition reduceSmap :: "reduce_st \<Rightarrow> SmapVoteMsg \<Rightarrow> reduce_st" where
  "reduceSmap st svm =
     (case Smap svm of
        None \<Rightarrow> st
      | Some s \<Rightarrow>
          if 0 < Version s then
            (case maxVerSmap st of
               None \<Rightarrow> st\<lparr>sorigin := UUID s, maxVerSmap := Some s\<rparr>
             | Some mx \<Rightarrow>
                 if sorigin st \<noteq> [] \<and> sorigin st \<noteq> UUID s then st\<lparr>slowp := True\<rparr>
                 else if \<not> slowp st \<and> Version mx < Version s
                   then st\<lparr>maxVerSmap := Some s, sorigin := UUID s\<rparr>
                 else st)
          else st)"

text \<open>Lines 473--478: per-node retention.\<close>

definition retain :: "Snode \<Rightarrow> SmapVoteMsg \<Rightarrow> reduce_st \<Rightarrow> reduce_st" where
  "retain n svm st =
     (let st1 =
        (case (bmds st, BucketMD svm) of
           (Some bm, Some b) \<Rightarrow>
             if 0 < BVersion b then st\<lparr>bmds := Some (AList.update n b bm)\<rparr> else st
         | _ \<Rightarrow> st)
      in
        (case (smaps st1, Smap svm) of
           (Some sm, Some s) \<Rightarrow>
             if 0 < Version s then st1\<lparr>smaps := Some (AList.update n s sm)\<rparr> else st1
         | _ \<Rightarrow> st1))"

text \<open>Lines 453--462: the test that leaves the loop.\<close>

definition reelecting :: "SmapVoteMsg \<Rightarrow> bool" where
  "reelecting svm = (case Smap svm of None \<Rightarrow> False | Some s \<Rightarrow> VoteInProgress svm)"

text \<open>The \<open>for res := range results\<close> loop; \<open>continue\<close> is the recursive call,
  \<open>break\<close> returns the state.\<close>

fun bcast_loop :: "reduce_st \<Rightarrow> callResult list \<Rightarrow> reduce_st" where
  "bcast_loop st [] = st"
| "bcast_loop st (res # rest) =
     (case err res of
        Some e \<Rightarrow> bcast_loop (st\<lparr>done' := False\<rparr>) rest
      | None \<Rightarrow>
          (case outjson res of
             None \<Rightarrow> bcast_loop (st\<lparr>done' := False\<rparr>) rest
           | Some svm \<Rightarrow>
               let st1 = reduceBMD st svm in
               if reelecting svm
               then st1\<lparr>maxVerSmap := None, maxVerBMD := None, done' := False\<rparr>
               else bcast_loop (retain (si res) svm (reduceSmap st1 svm)) rest))"

text \<open>The state at loop entry: \<open>done = true\<close> (the field is \<open>done'\<close> here), everything else zero, and both
  maps emptied when they are not nil.\<close>

definition bcast_init ::
  "(Snode \<times> bucketMD) list option \<Rightarrow> (Snode \<times> smapX) list option \<Rightarrow> reduce_st" where
  "bcast_init bm sm =
     \<lparr>maxVerSmap = None, maxVerBMD = None, done' = True, slowp = False,
      borigin = [], sorigin = [],
      bmds = map_option (\<lambda>_. []) bm, smaps = map_option (\<lambda>_. []) sm\<rparr>"

definition bcastMaxVer ::
  "callResult list \<Rightarrow> (Snode \<times> bucketMD) list option \<Rightarrow> (Snode \<times> smapX) list option
     \<Rightarrow> reduce_st" where
  "bcastMaxVer results bm sm = bcast_loop (bcast_init bm sm) results"


text \<open>A response that takes the \<open>break\<close>: no transport error, decodes, carries a
  cluster map and reports a vote in progress.\<close>

definition breaks :: "callResult \<Rightarrow> bool" where
  "breaks r =
     (case err r of
        Some e \<Rightarrow> False
      | None \<Rightarrow> (case outjson r of None \<Rightarrow> False | Some svm \<Rightarrow> reelecting svm))"

section \<open>Slow path: \<open>uncoverMeta\<close>\<close>

text \<open>\<open>resolveUUIDBMD\<close> is a parameter (its source is not part of the files at
  hand): from the per-node bucket metadata it returns the chosen one and an error.\<close>

datatype bmd_err = ErrBmdUUIDSplit | ErrNoBMD | ErrOther

type_synonym resolver = "(Snode \<times> bucketMD) list \<Rightarrow> bucketMD option \<times> bmd_err option"

text \<open>The \<open>for\<close> loop of lines 371--378.  \<open>bcast i\<close> is what the \<open>i\<close>-th broadcast
  delivers; the last argument counts the rounds that start before the deadline
  (\<open>last\<close> is true exactly when it is 0).  Every call of \<open>bcastMaxVer\<close> empties
  the two maps first.\<close>

fun uncover_loop :: "(nat \<Rightarrow> callResult list) \<Rightarrow> nat \<Rightarrow> nat \<Rightarrow> reduce_st" where
  "uncover_loop bcast i 0 = bcastMaxVer (bcast i) (Some []) (Some [])"
| "uncover_loop bcast i (Suc k) =
     (let st = bcastMaxVer (bcast i) (Some []) (Some []) in
      if done' st then st else uncover_loop bcast (Suc i) k)"

text \<open>Lines 388--402.  Go ranges over the map in an unspecified order; the model
  ranges over the association list in the order the responses arrived.\<close>

fun suuid_loop :: "string \<Rightarrow> (Snode \<times> smapX) list \<Rightarrow> error + string" where
  "suuid_loop suuid [] = Inr suuid"
| "suuid_loop suuid ((n, smap) # rest) =
     (if \<not> IsTarget n then suuid_loop suuid rest
      else if suuid = [] then suuid_loop (UUID smap) rest
      else if suuid \<noteq> UUID smap \<and> UUID smap \<noteq> [] then Inl (ExitCIE 30)
      else suuid_loop suuid rest)"

text \<open>Lines 403--412; the second argument is \<open>maxVerSmap\<close> as the loop finds it.\<close>

fun maxver_loop :: "string \<Rightarrow> smapX option \<Rightarrow> (Snode \<times> smapX) list \<Rightarrow> smapX option" where
  "maxver_loop suuid mx [] = mx"
| "maxver_loop suuid mx ((n, smap) # rest) =
     (if UUID smap \<noteq> suuid then maxver_loop suuid mx rest
      else
        (case mx of
           None \<Rightarrow> maxver_loop suuid (Some smap) rest
         | Some m \<Rightarrow>
             if Version m < Version smap then maxver_loop suuid (Some smap) rest
             else maxver_loop suuid mx rest))"

definition map_entries :: "('k \<times> 'v) list option \<Rightarrow> ('k \<times> 'v) list" where
  "map_entries m = (case m of None \<Rightarrow> [] | Some l \<Rightarrow> l)"

definition uncoverMeta ::
  "resolver \<Rightarrow> (nat \<Rightarrow> callResult list) \<Rightarrow> nat \<Rightarrow> error + (smapX option \<times> bucketMD option)" where
  "uncoverMeta resolveUUIDBMD bcast nrounds =
     (let st = uncover_loop bcast 0 nrounds in
      if slowp st then
        (case resolveUUIDBMD (map_entries (bmds st)) of
           (b, Some ErrBmdUUIDSplit) \<Rightarrow> Inl ExitBmdUUIDSplit
         | (b, _) \<Rightarrow>
             (case suuid_loop [] (map_entries (smaps st)) of
                Inl e \<Rightarrow> Inl e
              | Inr suuid \<Rightarrow>
                  Inr (maxver_loop suuid (maxVerSmap st) (map_entries (smaps st)), b)))
      else Inr (maxVerSmap st, maxVerBMD st))"

section \<open>Discovery: \<open>discoverMeta\<close>\<close>

text \<open>The two metadata owners, and the list of cluster maps that the start-up code
  itself has handed to \<open>p.owner.smap.put\<close>, oldest first.\<close>

record owner =
  owner_smap :: smapX
  owner_bmd :: "bucketMD option"
  puts :: "smapX list"

definition put_smap :: "smapX \<Rightarrow> owner \<Rightarrow> owner" where
  "put_smap m ow = ow\<lparr>owner_smap := m, puts := puts ow @ [m]\<rparr>"

text \<open>\<open>Compare\<close> and \<open>merge\<close> are parameters (their source is not part of the files
  at hand).  \<open>Compare a b\<close> returns \<open>(sameUUID, sameVersion, eq)\<close>;
  \<open>merge src dst override\<close> returns the number of added nodes, \<open>dst\<close> as the call
  leaves it, and the error.\<close>

type_synonym compare = "smapX \<Rightarrow> smapX \<Rightarrow> bool \<times> bool \<times> bool"
type_synonym merge = "smapX \<Rightarrow> smapX \<Rightarrow> bool \<Rightarrow> nat \<times> smapX \<times> string option"

text \<open>Modelled from the spec: \<open>cmn.MaxI64\<close> (the \<open>max\<close> of the two versions); its
  source is not part of the files at hand.\<close>

definition MaxI64 :: "int \<Rightarrow> int \<Rightarrow> int" where
  "MaxI64 a b = (if a < b then b else a)"

text \<open>Arithmetic on \<open>int64\<close> wraps around.\<close>

definition wrap64 :: "int \<Rightarrow> int" where
  "wrap64 v = (v + 2 ^ 63) mod 2 ^ 64 - 2 ^ 63"

definition inc64 :: "int \<Rightarrow> int" where
  "inc64 v = wrap64 (v + 1)"

text \<open>\<open>maxVerSmap.ProxySI != nil && maxVerSmap.ProxySI.ID() != p.si.ID()\<close>.\<close>

definition otherPrimary :: "smapX \<Rightarrow> Snode \<Rightarrow> bool" where
  "otherPrimary m self = (case ProxySI m of None \<Rightarrow> False | Some p \<Rightarrow> ID p \<noteq> ID self)"

definition install_bmd :: "bucketMD option \<Rightarrow> owner \<Rightarrow> owner" where
  "install_bmd mxb ow =
     (case mxb of
        None \<Rightarrow> ow
      | Some b \<Rightarrow>
          (case owner_bmd ow of
             None \<Rightarrow> ow\<lparr>owner_bmd := Some b\<rparr>
           | Some c \<Rightarrow> if BVersion c < BVersion b then ow\<lparr>owner_bmd := Some b\<rparr> else ow))"

text \<open>Lines 318--352, on the pair \<open>uncoverMeta\<close> returned.\<close>

definition classify ::
  "compare \<Rightarrow> merge \<Rightarrow> Snode \<Rightarrow> owner \<Rightarrow> smapX \<Rightarrow> smapX option \<Rightarrow> error + owner" where
  "classify Compare merge self ow smap mxs =
     (case mxs of
        None \<Rightarrow> Inr ow
      | Some mx \<Rightarrow>
          if Version mx = 0 then Inr ow
          else
            (case Compare smap mx of
               (sameUUID, sameVersion, eq) \<Rightarrow>
                 if \<not> sameUUID then Inl (ExitCIE 10)
                 else if eq \<and> sameVersion then Inr ow
                 else if otherPrimary mx self then
                   (if Version smap < Version mx then Inr (put_smap (addProxy self mx) ow)
                    else Inl (ExitCIE 20))
                 else
                   (let clone = owner_smap ow in
                    if \<not> eq then
                      (case merge mx clone False of (added, merged, e) \<Rightarrow> Inl (ExitMerge e))
                    else
                      Inr (put_smap
                             (clone\<lparr>Version := inc64 (MaxI64 (Version clone) (Version mx))\<rparr>)
                             ow))))"

definition discoverMeta ::
  "compare \<Rightarrow> merge \<Rightarrow> resolver \<Rightarrow> Snode \<Rightarrow> (nat \<Rightarrow> callResult list) \<Rightarrow> nat \<Rightarrow> owner \<Rightarrow> smapX
     \<Rightarrow> error + owner" where
  "discoverMeta Compare merge resolveUUIDBMD self bcast nrounds ow smap =
     (case uncoverMeta resolveUUIDBMD bcast nrounds of
        Inl e \<Rightarrow> Inl e
      | Inr (mxs, mxb) \<Rightarrow> classify Compare merge self (install_bmd mxb ow) smap mxs)"

section \<open>The preliminary decision: \<open>determineRole\<close>\<close>

text \<open>\<open>envpid\<close> is \<open>AIS_PRIMARY_ID\<close>, \<open>envprimary\<close> is \<open>AIS_IS_PRIMARY\<close> as
  \<open>cmn.ParseBool\<close> reads it (false when unset).  Lines 98--108 first.\<close>

definition adoptEnv :: "smapX option \<Rightarrow> string \<Rightarrow> error + (smapX option \<times> string)" where
  "adoptEnv smap envpid =
     (case smap of
        None \<Rightarrow> Inr (None, envpid)
      | Some m \<Rightarrow>
          if envpid = [] then Inr (Some m, envpid)
          else
            (case GetProxy m envpid of
               None \<Rightarrow> Inr (Some m, [])
             | Some primary \<Rightarrow>
                 (case ProxySI m of
                    None \<Rightarrow> Inl PanicNilDeref
                  | Some c \<Rightarrow>
                      if ID c \<noteq> envpid then Inr (Some (m\<lparr>ProxySI := Some primary\<rparr>), envpid)
                      else Inr (Some m, envpid))))"

definition determineRole ::
  "Snode \<Rightarrow> string \<Rightarrow> bool \<Rightarrow> smapX \<Rightarrow> bool \<Rightarrow> error + (smapX option \<times> bool)" where
  "determineRole self envpid envprimary smap loaded =
     (let smap1 = (if loaded then Some (addProxy self smap) else None) in
      if envpid \<noteq> [] \<and> envprimary \<and> ID self \<noteq> envpid then Inl ExitInvalidEnv
      else
        (case adoptEnv smap1 envpid of
           Inl e \<Rightarrow> Inl e
         | Inr (m, pid) \<Rightarrow>
             Inr (m,
                  if pid \<noteq> [] then pid \<noteq> ID self
                  else (case m of Some mm \<Rightarrow> \<not> isPrimary mm self | None \<Rightarrow> \<not> envprimary))))"


section \<open>The registration window: \<open>acceptRegistrations\<close>\<close>

text \<open>
  What the loop reads from its surroundings in iteration \<open>i\<close> (counted from 0).
  \<open>time.Sleep\<close> pauses for at least a second, so when the loop condition is
  evaluated for the \<open>i\<close>-th time at least \<open>i\<close> seconds have passed, and at least
  \<open>i + 1\<close> when the probe condition is; \<open>lag_loop\<close> and \<open>lag_probe\<close> are the
  nanoseconds beyond that.  \<open>cur\<close> is what \<open>p.owner.smap.get()\<close> returns after
  the sleep (join requests are served meanwhile), \<open>probe\<close> what the broadcast
  delivers if it is sent in this iteration.
\<close>

record tick =
  lag_loop :: nat
  cur :: smapX
  lag_probe :: nat
  probe :: "callResult list"

definition second :: int where
  "second = 1000000000"

definition elapsed_loop :: "(nat \<Rightarrow> tick) \<Rightarrow> nat \<Rightarrow> int" where
  "elapsed_loop env i = int i * second + int (lag_loop (env i))"

definition elapsed_probe :: "(nat \<Rightarrow> tick) \<Rightarrow> nat \<Rightarrow> int" where
  "elapsed_probe env i = int (Suc i) * second + int (lag_probe (env i))"

text \<open>The result \<open>maxVerSmap\<close>, and two observations for stating claims about
  the loop: the way and iteration in which it was left, and the iterations in which
  the broadcast was sent.\<close>

datatype wexit = TimedOut nat | NotPrimary nat | ReachedTargets nat | Superseded nat

record window =
  wnd_smap :: "smapX option"
  wnd_exit :: wexit
  wnd_probes :: "nat list"

text \<open>\<open>config.Timeout\<close>, in nanoseconds.\<close>

record timeouts =
  Startup :: int
  MaxKeepalive :: int

text \<open>\<open>2*config.Timeout.MaxKeepalive\<close> (line 278) is a product of \<open>int64\<close>
  durations and wraps around; \<open>accept_loop\<close> below takes it as
  \<open>wrap64 (2 * MaxKeepalive config)\<close>.\<close>

text \<open>Lines 285--293.\<close>

definition supersedes :: "reduce_st \<Rightarrow> smapX \<Rightarrow> Snode \<Rightarrow> bool" where
  "supersedes st loadedSmap self =
     (case maxVerSmap st of
        None \<Rightarrow> False
      | Some mx \<Rightarrow>
          \<not> slowp st \<and> UUID mx = UUID loadedSmap \<and> Version loadedSmap < Version mx
            \<and> otherPrimary mx self)"

function accept_loop ::
  "Snode \<Rightarrow> (nat \<Rightarrow> tick) \<Rightarrow> smapX option \<Rightarrow> timeouts \<Rightarrow> int \<Rightarrow> nat \<Rightarrow> int \<Rightarrow> bool \<Rightarrow> nat list
     \<Rightarrow> error + window" where
  "accept_loop self env loadedSmap config ntargets i wtime checked sent =
     (if elapsed_loop env i < wtime then
        (let smap = cur (env i) in
         if \<not> isPrimary smap self
           then Inr \<lparr>wnd_smap = None, wnd_exit = NotPrimary i, wnd_probes = sent\<rparr>
         else
           (let nt = int (CountTargets smap) in
            if ntargets \<le> nt \<and> 0 < ntargets
              then Inr \<lparr>wnd_smap = None, wnd_exit = ReachedTargets i, wnd_probes = sent\<rparr>
            else
              (let wtime1 = (if 0 < nt then Startup config else wtime) in
               if checked
                 then accept_loop self env loadedSmap config ntargets (Suc i) wtime1 checked sent
               else
                 (case loadedSmap of
                    None \<Rightarrow> Inl PanicNilDeref
                  | Some l \<Rightarrow>
                      if 0 < CountTargets l \<and> wrap64 (2 * MaxKeepalive config) < elapsed_probe env i
                      then
                        (let st = bcastMaxVer (probe (env i)) None None in
                         if supersedes st l self
                           then Inr \<lparr>wnd_smap = maxVerSmap st, wnd_exit = Superseded i,
                                     wnd_probes = sent @ [i]\<rparr>
                         else accept_loop self env loadedSmap config ntargets (Suc i) wtime1 True
                                (sent @ [i]))
                      else accept_loop self env loadedSmap config ntargets (Suc i) wtime1 checked
                             sent))))
      else Inr \<lparr>wnd_smap = None, wnd_exit = TimedOut i, wnd_probes = sent\<rparr>)"
  by pat_completeness auto
termination
proof (relation "measure (\<lambda>(self, env, loadedSmap, config, ntargets, i, wtime, checked, sent).
          nat (max wtime (Startup config) - int i * second))", goal_cases)
  case 1
  then show ?case by simp
next
  case (2 self env loadedSmap config ntargets i wtime checked sent)
  then show ?case by (auto simp: elapsed_loop_def second_def Let_def)
next
  case (3 self env loadedSmap config ntargets i wtime checked sent)
  then show ?case by (auto simp: elapsed_loop_def second_def Let_def)
next
  case (4 self env loadedSmap config ntargets i wtime checked sent)
  then show ?case by (auto simp: elapsed_loop_def second_def Let_def)
qed

text \<open>\<open>deadline / 2\<close> on \<open>time.Duration\<close> truncates towards zero.\<close>

definition quo2 :: "int \<Rightarrow> int" where
  "quo2 d = (if d < 0 then - ((- d) div 2) else d div 2)"

definition acceptRegistrations ::
  "Snode \<Rightarrow> (nat \<Rightarrow> tick) \<Rightarrow> smapX \<Rightarrow> smapX option \<Rightarrow> timeouts \<Rightarrow> int \<Rightarrow> error + window" where
  "acceptRegistrations self env smap loadedSmap config ntargets =
     (if CountTargets smap \<noteq> 0 then Inl PanicAssert
      else accept_loop self env loadedSmap config ntargets 0 (quo2 (Startup config))
             (loadedSmap = None) [])"

section \<open>The two tracks: \<open>secondaryStartup\<close>, \<open>primaryStartup\<close>, \<open>bootstrap\<close>\<close>

text \<open>
  Everything the start-up sequence takes from outside the functions at hand:
  the command line, the environment, the disk, the clock, the network and the
  join handlers that run concurrently.  \<open>registered m\<close> is the installed map at
  line 174 when \<open>m\<close> was installed in step 1 (join requests served meanwhile);
  \<open>joins m\<close> tells whether \<open>withRetry(joinCluster)\<close> succeeds with \<open>m\<close> installed.
  \<open>metasyncer.sync\<close> does not change the owners of this node and is left out.
\<close>

record world =
  skipStartup :: bool
  AIS_PRIMARY_ID :: string
  AIS_IS_PRIMARY :: bool
  loadResult :: "smapX option"
  netChange :: bool
  ticks :: "nat \<Rightarrow> tick"
  registered :: "smapX \<Rightarrow> smapX"
  bcasts :: "nat \<Rightarrow> callResult list"
  rounds :: nat
  joins :: "smapX \<Rightarrow> bool"
  newClusterUUID :: "string \<times> string"
  persists :: bool

text \<open>Returns the owners and whether the join succeeded (\<open>err == nil\<close>).  The
  goroutine that later stores \<open>startedUp\<close> is not part of the call.\<close>

definition secondaryStartup :: "world \<Rightarrow> smapX option \<Rightarrow> owner \<Rightarrow> owner \<times> bool" where
  "secondaryStartup w smap ow =
     (let m = (case smap of None \<Rightarrow> newSmap | Some s \<Rightarrow> s) in
      (put_smap m ow, joins w m))"

definition joinOrExit :: "world \<Rightarrow> smapX \<Rightarrow> owner \<Rightarrow> error + owner" where
  "joinOrExit w m ow =
     (case secondaryStartup w (Some m) ow of
        (ow1, joined) \<Rightarrow> if joined then Inr ow1 else Inl ExitJoin)"

text \<open>Step 1 of \<open>primaryStartup\<close>: the map that holds only this node, as primary.\<close>

definition selfOnly :: "Snode \<Rightarrow> smapX" where
  "selfOnly self = (addProxy self newSmap)\<lparr>ProxySI := Some self\<rparr>"

text \<open>Step 2 (lines 174--204): merge the loaded map; returns the owners and the
  local \<open>smap\<close>.\<close>

definition mergeLoaded :: "merge \<Rightarrow> owner \<Rightarrow> smapX option \<Rightarrow> owner \<times> smapX" where
  "mergeLoaded merge ow loadedSmap =
     (let smap = owner_smap ow;
          haveRegistratons = (0 < CountTargets smap \<or> 1 < CountProxies smap)
      in
        (case loadedSmap of
           None \<Rightarrow> (ow, smap)
         | Some l \<Rightarrow>
             if haveRegistratons then
               (case merge smap l True of
                  (added, l1, e) \<Rightarrow>
                    let l2 = (if 0 < added
                              then l1\<lparr>Version := wrap64 (wrap64 (Version l1 + int added) + 1)\<rparr>
                              else l1)
                    in (put_smap l2 ow, l2))
             else (put_smap l ow, l)))"

text \<open>Steps 4 to 6 (lines 209--250).\<close>

definition finalize :: "world \<Rightarrow> Snode \<Rightarrow> owner \<Rightarrow> error + owner" where
  "finalize w self ow =
     (let smap = owner_smap ow in
      if \<not> isPrimary smap self then joinOrExit w smap ow
      else
        (let ow1 = (if UUID smap = []
                    then put_smap (smap\<lparr>UUID := fst (newClusterUUID w),
                                         CreationTime := snd (newClusterUUID w),
                                         Version := inc64 (Version smap)\<rparr>) ow
                    else ow)
         in
           if \<not> persists w then Inl ExitPersist
           else
             (case owner_bmd ow1 of
                None \<Rightarrow> Inl PanicNilDeref
              | Some bmd \<Rightarrow>
                  if BVersion bmd = 0
                  then Inr (ow1\<lparr>owner_bmd := Some (bmd\<lparr>BVersion := 1, BUUID := UUID (owner_smap ow1)\<rparr>)\<rparr>)
                  else Inr ow1)))"

definition primaryStartup ::
  "world \<Rightarrow> compare \<Rightarrow> merge \<Rightarrow> resolver \<Rightarrow> Snode \<Rightarrow> owner \<Rightarrow> smapX option \<Rightarrow> timeouts \<Rightarrow> int
     \<Rightarrow> error + owner" where
  "primaryStartup w Compare merge resolveUUIDBMD self ow loadedSmap config ntargets =
     (let smap = selfOnly self;
          ow1 = put_smap smap ow
      in
        (case (if skipStartup w then Inr None
               else (case acceptRegistrations self (ticks w) smap loadedSmap config ntargets of
                       Inl e \<Rightarrow> Inl e
                     | Inr wnd \<Rightarrow> Inr (wnd_smap wnd))) of
           Inl e \<Rightarrow> Inl e
         | Inr (Some maxVer) \<Rightarrow>
             joinOrExit w (addProxy self maxVer) (put_smap (addProxy self maxVer) ow1)
         | Inr None \<Rightarrow>
             (case mergeLoaded merge (ow1\<lparr>owner_smap := registered w (owner_smap ow1)\<rparr>) loadedSmap of
                (ow2, smap2) \<Rightarrow>
                  (case discoverMeta Compare merge resolveUUIDBMD self (bcasts w) (rounds w) ow2 smap2 of
                     Inl e \<Rightarrow> Inl e
                   | Inr ow3 \<Rightarrow> finalize w self ow3))))"

text \<open>\<open>bootstrap\<close> starts \<open>primaryStartup\<close> as a goroutine and returns; the model
  runs it to its end.\<close>

definition bootstrap ::
  "world \<Rightarrow> compare \<Rightarrow> merge \<Rightarrow> resolver \<Rightarrow> Snode \<Rightarrow> owner \<Rightarrow> timeouts \<Rightarrow> int \<Rightarrow> error + owner" where
  "bootstrap w Compare merge resolveUUIDBMD self ow config ntargets =
     (let smap = (case loadResult w of None \<Rightarrow> newSmap | Some m \<Rightarrow> m);
          loaded = (case loadResult w of None \<Rightarrow> False | Some m \<Rightarrow> \<not> netChange w)
      in
        (case determineRole self (AIS_PRIMARY_ID w) (AIS_IS_PRIMARY w) smap loaded of
           Inl e \<Rightarrow> Inl e
         | Inr (smap1, secondary) \<Rightarrow>
             if \<not> secondary
             then primaryStartup w Compare merge resolveUUIDBMD self ow smap1 config ntargets
             else
               (case secondaryStartup w smap1 ow of
                  (ow1, joined) \<Rightarrow>
                    if joined then Inr ow1
                    else if loaded then
                      (case uncoverMeta resolveUUIDBMD (bcasts w) (rounds w) of
                         Inl e \<Rightarrow> Inl e
                       | Inr (maxVer, b) \<Rightarrow>
                           (case maxVer of
                              None \<Rightarrow> Inl ExitJoin
                            | Some mx \<Rightarrow>
                                (case ProxySI mx of
                                   None \<Rightarrow> Inl ExitJoin
                                 | Some pr \<Rightarrow> joinOrExit w mx ow1)))
                    else Inl ExitJoin)))"


section \<open>Auxiliary notions for the statements\<close>

text \<open>What a response decodes to: nothing on a transport or decoding error.\<close>

definition decoded :: "callResult \<Rightarrow> SmapVoteMsg option" where
  "decoded r = (case err r of Some e \<Rightarrow> None | None \<Rightarrow> outjson r)"

text \<open>A node map whose keys are the ids of the nodes stored under them.\<close>

definition keyed_by_id :: "NodeMap \<Rightarrow> bool" where
  "keyed_by_id m = list_all (\<lambda>(k, n). ID n = k) m"

text \<open>The map lists this node under its id.\<close>

definition has_proxy :: "smapX \<Rightarrow> Snode \<Rightarrow> bool" where
  "has_proxy m self = (map_of (Pmap m) (ID self) = Some self)"

definition exit_index :: "wexit \<Rightarrow> nat" where
  "exit_index e =
     (case e of TimedOut i \<Rightarrow> i | NotPrimary i \<Rightarrow> i | ReachedTargets i \<Rightarrow> i | Superseded i \<Rightarrow> i)"

text \<open>Every cluster map the reducer holds has a positive version.\<close>

definition positive_st :: "reduce_st \<Rightarrow> bool" where
  "positive_st st =
     ((case maxVerSmap st of None \<Rightarrow> True | Some m \<Rightarrow> 0 < Version m) \<and>
      list_all (\<lambda>(n, s). 0 < Version s) (map_entries (smaps st)))"

section \<open>Concrete nodes, maps and responses\<close>

definition node_p1 :: Snode where
  "node_p1 = \<lparr>DaemonID = ''p1'', DaemonType = Proxy, DirectURL = ''http://10.0.0.1:8080''\<rparr>"

definition node_p2 :: Snode where
  "node_p2 = \<lparr>DaemonID = ''p2'', DaemonType = Proxy, DirectURL = ''http://10.0.0.2:8080''\<rparr>"

definition node_t1 :: Snode where
  "node_t1 = \<lparr>DaemonID = ''t1'', DaemonType = Target, DirectURL = ''http://10.0.1.1:8081''\<rparr>"

definition node_t2 :: Snode where
  "node_t2 = \<lparr>DaemonID = ''t2'', DaemonType = Target, DirectURL = ''http://10.0.1.2:8081''\<rparr>"

definition mk_smap :: "string \<Rightarrow> int \<Rightarrow> Snode option \<Rightarrow> Snode list \<Rightarrow> Snode list \<Rightarrow> smapX" where
  "mk_smap u v p ps ts =
     \<lparr>Tmap = map (\<lambda>n. (ID n, n)) ts, Pmap = map (\<lambda>n. (ID n, n)) ps, ProxySI = p,
      Version = v, UUID = u, CreationTime = ''2020-01-01''\<rparr>"

definition reply :: "Snode \<Rightarrow> bool \<Rightarrow> smapX option \<Rightarrow> bucketMD option \<Rightarrow> callResult" where
  "reply n v s b =
     \<lparr>si = n, err = None, outjson = Some \<lparr>VoteInProgress = v, Smap = s, BucketMD = b\<rparr>\<rparr>"

definition no_bmd :: resolver where
  "no_bmd l = (None, Some ErrNoBMD)"

definition empty_owner :: "smapX \<Rightarrow> owner" where
  "empty_owner m = \<lparr>owner_smap = m, owner_bmd = None, puts = []\<rparr>"

text \<open>A clock without lag, an installed map that never changes, no responses.\<close>

definition steady :: "smapX \<Rightarrow> callResult list \<Rightarrow> nat \<Rightarrow> tick" where
  "steady m rs i = \<lparr>lag_loop = 0, cur = m, lag_probe = 0, probe = rs\<rparr>"

definition ten_seconds :: timeouts where
  "ten_seconds = \<lparr>Startup = 10 * second, MaxKeepalive = 1 * second\<rparr>"

definition quiet_world :: world where
  "quiet_world =
     \<lparr>skipStartup = False, AIS_PRIMARY_ID = [], AIS_IS_PRIMARY = False, loadResult = None,
      netChange = False, ticks = steady (selfOnly node_p1) [], registered = (\<lambda>m. m),
      bcasts = (\<lambda>i. []), rounds = 0, joins = (\<lambda>m. True),
      newClusterUUID = (''U1'', ''2020-01-02''), persists = True\<rparr>"

text \<open>Two responders of one broadcast: a gateway with a map of cluster \<open>B\<close>, a
  target with a map of cluster \<open>A\<close>.\<close>

definition stale_gateway :: "callResult list" where
  "stale_gateway =
     [reply node_p2 False (Some (mk_smap ''B'' 10 (Some node_p2) [node_p2] [])) None,
      reply node_t1 False (Some (mk_smap ''A'' 3 (Some node_p1) [node_p1] [node_t1])) None]"

text \<open>Stand-ins for the two absent functions at concrete inputs: a comparison that
  finds the same uuid, another version and other elements; a strict merge that adds
  one node and reports no error.\<close>

definition differs_by_node :: compare where
  "differs_by_node a b = (True, False, False)"

definition merge_adds_one :: merge where
  "merge_adds_one src dst override = (1, dst\<lparr>Tmap := Tmap dst @ Tmap src\<rparr>, None)"

text \<open>The installed map names this node as primary until tick \<open>k\<close> and another
  gateway from then on.\<close>

definition demoted_at :: "nat \<Rightarrow> nat \<Rightarrow> tick" where
  "demoted_at k i =
     steady (if i < k then selfOnly node_p1
             else mk_smap ''U'' 8 (Some node_p2) [node_p1, node_p2] []) [] i"

text \<open>A world in which the nodes of the loaded map answer the probe with a newer map
  of the same cluster whose primary is \<open>p2\<close>.\<close>

definition elsewhere_world :: world where
  "elsewhere_world =
     quiet_world\<lparr>ticks := steady (selfOnly node_p1)
        [reply node_p2 False
           (Some (mk_smap ''U'' 12 (Some node_p2) [node_p1, node_p2] [node_t1])) None]\<rparr>"

text \<open>A comparison that finds the two maps to be the same map (same uuid, same version,
  same elements), as it does when both arguments are one and the same map.\<close>

definition finds_identical :: compare where
  "finds_identical a b = (True, True, True)"

text \<open>A configuration whose maximum keepalive is \<open>2 ^ 62\<close> nanoseconds: twice that
  does not fit an \<open>int64\<close>.\<close>

definition long_keepalive :: timeouts where
  "long_keepalive = \<lparr>Startup = 10 * second, MaxKeepalive = 2 ^ 62\<rparr>"

section \<open>Properties of the start-up code\<close>

subsection \<open>The reducer loop\<close>

lemma bcast_loop_append:
  "\<forall>x\<in>set pre. \<not> breaks x \<Longrightarrow> bcast_loop st (pre @ rest) = bcast_loop (bcast_loop st pre) rest"
  by (induction pre arbitrary: st) (auto simp: breaks_def Let_def split: option.splits)

lemma bcast_loop_break:
  "breaks r \<Longrightarrow> bcast_loop st (r # rest) = bcast_loop st [r]"
  by (auto simp: breaks_def Let_def split: option.splits)

lemma bcast_loop_break_fields:
  "breaks r \<Longrightarrow> maxVerSmap (bcast_loop st [r]) = None \<and> maxVerBMD (bcast_loop st [r]) = None
      \<and> \<not> done' (bcast_loop st [r])"
  by (auto simp: breaks_def Let_def split: option.splits)

lemma first_break:
  "r \<in> set rs \<Longrightarrow> breaks r \<Longrightarrow>
     \<exists>pre r' post. rs = pre @ r' # post \<and> breaks r' \<and> (\<forall>x\<in>set pre. \<not> breaks x)"
  by (metis split_list_first_prop)

lemma bcast_loop_cut:
  assumes "\<forall>x\<in>set pre. \<not> breaks x" and "breaks b"
  shows "bcast_loop st (pre @ b # post) = bcast_loop (bcast_loop st pre) [b]"
  using bcast_loop_append [OF assms(1)] bcast_loop_break [OF assms(2)] by simp

lemma bcast_loop_after_break:
  assumes "\<exists>y\<in>set xs. breaks y"
  shows "bcast_loop st (xs @ ys) = bcast_loop st xs"
proof -
  from assms obtain pre b post where xs: "xs = pre @ b # post" and b: "breaks b"
    and pre: "\<forall>x\<in>set pre. \<not> breaks x"
    by (metis split_list_first_prop)
  from bcast_loop_cut [OF pre b, of st "post @ ys"] bcast_loop_cut [OF pre b, of st post]
  show ?thesis unfolding xs by simp
qed

subsection \<open>Vote in progress\<close>

text \<open>Against C2 as stated: a response that reports a vote in progress but carries no
  cluster map does not abort the round; \<open>done\<close> stays true and the bucket metadata
  is kept.\<close>

theorem vote_without_map_counterexample:
  "done' (bcastMaxVer [reply node_t1 True None (Some \<lparr>BVersion = 1, BUUID = ''U''\<rparr>)] None None) \<and>
   maxVerBMD (bcastMaxVer [reply node_t1 True None (Some \<lparr>BVersion = 1, BUUID = ''U''\<rparr>)] None None)
     = Some \<lparr>BVersion = 1, BUUID = ''U''\<rparr>"
  by (simp add: bcastMaxVer_def bcast_init_def reply_def reelecting_def reduceBMD_def
        reduceSmap_def retain_def)

text \<open>Claim C2, amended: if any response of the stream decodes to a tuple that carries a
  cluster map and has \<open>voteInProgress = true\<close> (the very first response included), the
  reduction declares the round unusable: \<open>maxVerSmap\<close> and \<open>maxVerBMD\<close> are nil,
  \<open>done\<close> is false, and nothing after the first such response is consumed.\<close>

theorem vote_in_progress_aborts:
  assumes "r \<in> set rs" and "err r = None" and "outjson r = Some svm"
    and "Smap svm = Some s" and "VoteInProgress svm"
  shows "maxVerSmap (bcastMaxVer rs bm sm) = None \<and> maxVerBMD (bcastMaxVer rs bm sm) = None
     \<and> \<not> done' (bcastMaxVer rs bm sm)
     \<and> (\<exists>pre r' post. rs = pre @ r' # post \<and> breaks r' \<and>
           (\<forall>post'. bcastMaxVer (pre @ r' # post') bm sm = bcastMaxVer rs bm sm))"
proof -
  have "breaks r"
    using assms(2-5) by (simp add: breaks_def reelecting_def)
  from first_break [OF assms(1) this] obtain pre r' post
    where rs: "rs = pre @ r' # post" and br: "breaks r'" and pre: "\<forall>x\<in>set pre. \<not> breaks x"
    by blast
  note cut = bcast_loop_cut [OF pre br]
  have fields: "maxVerSmap (bcastMaxVer rs bm sm) = None \<and> maxVerBMD (bcastMaxVer rs bm sm) = None
     \<and> \<not> done' (bcastMaxVer rs bm sm)"
    unfolding bcastMaxVer_def rs cut using bcast_loop_break_fields [OF br] by blast
  have "\<forall>post'. bcastMaxVer (pre @ r' # post') bm sm = bcastMaxVer rs bm sm"
    unfolding bcastMaxVer_def rs cut by simp
  with fields rs br show ?thesis by blast
qed

theorem vote_in_progress_aborts_witness:
  "maxVerSmap (bcastMaxVer
      [reply node_t1 True (Some (mk_smap ''U'' 3 (Some node_p2) [node_p2] [node_t1])) None,
       reply node_t2 False (Some (mk_smap ''U'' 4 (Some node_p2) [node_p2] [node_t1])) None]
      None None) = None \<and>
   \<not> done' (bcastMaxVer
      [reply node_t1 True (Some (mk_smap ''U'' 3 (Some node_p2) [node_p2] [node_t1])) None,
       reply node_t2 False (Some (mk_smap ''U'' 4 (Some node_p2) [node_p2] [node_t1])) None]
      None None)"
  using vote_in_progress_aborts
    [of "reply node_t1 True (Some (mk_smap ''U'' 3 (Some node_p2) [node_p2] [node_t1])) None"
        "[reply node_t1 True (Some (mk_smap ''U'' 3 (Some node_p2) [node_p2] [node_t1])) None,
          reply node_t2 False (Some (mk_smap ''U'' 4 (Some node_p2) [node_p2] [node_t1])) None]"
        "\<lparr>VoteInProgress = True, Smap = Some (mk_smap ''U'' 3 (Some node_p2) [node_p2] [node_t1]),
          BucketMD = None\<rparr>"
        "mk_smap ''U'' 3 (Some node_p2) [node_p2] [node_t1]" None None]
  by (simp add: reply_def)


subsection \<open>The slow-path latch\<close>

lemma reduceBMD_slowp:
  "slowp (reduceBMD st svm) =
     (slowp st \<or> (\<exists>b mx. BucketMD svm = Some b \<and> 0 < BVersion b \<and> maxVerBMD st = Some mx \<and>
         borigin st \<noteq> [] \<and> borigin st \<noteq> BUUID b))"
  by (auto simp: reduceBMD_def split: option.splits)

lemma reduceSmap_slowp:
  "slowp (reduceSmap st svm) =
     (slowp st \<or> (\<exists>s mx. Smap svm = Some s \<and> 0 < Version s \<and> maxVerSmap st = Some mx \<and>
         sorigin st \<noteq> [] \<and> sorigin st \<noteq> UUID s))"
  by (auto simp: reduceSmap_def split: option.splits)

lemma reduceBMD_smap_fields:
  "maxVerSmap (reduceBMD st svm) = maxVerSmap st" "sorigin (reduceBMD st svm) = sorigin st"
  by (auto simp: reduceBMD_def split: option.splits)

lemma retain_slowp: "slowp (retain n svm st) = slowp st"
  by (simp add: retain_def Let_def split: option.splits)

lemma step_slowp:
  "slowp (bcast_loop st [r]) =
     (slowp st \<or>
      (\<exists>svm. decoded r = Some svm \<and>
         ((\<exists>b mx. BucketMD svm = Some b \<and> 0 < BVersion b \<and> maxVerBMD st = Some mx \<and>
              borigin st \<noteq> [] \<and> borigin st \<noteq> BUUID b)
          \<or> (\<exists>s mx. Smap svm = Some s \<and> \<not> VoteInProgress svm \<and> 0 < Version s \<and>
              maxVerSmap st = Some mx \<and> sorigin st \<noteq> [] \<and> sorigin st \<noteq> UUID s))))"
  by (auto simp: decoded_def Let_def reduceBMD_slowp reduceSmap_slowp retain_slowp
        reduceBMD_smap_fields reelecting_def split: option.splits)

lemma bcast_loop_slowp_mono: "slowp st \<Longrightarrow> slowp (bcast_loop st rs)"
  by (induction rs arbitrary: st)
     (auto simp: Let_def reduceBMD_slowp reduceSmap_slowp retain_slowp split: option.splits)

lemma bcast_loop_Cons_mono:
  assumes "slowp (bcast_loop st [r])"
  shows "slowp (bcast_loop st (r # post))"
proof (cases "breaks r")
  case True
  from bcast_loop_break [OF True, of st post] assms show ?thesis by metis
next
  case False
  then have "bcast_loop st ([r] @ post) = bcast_loop (bcast_loop st [r]) post"
    by (intro bcast_loop_append) simp
  then have "bcast_loop st (r # post) = bcast_loop (bcast_loop st [r]) post"
    by (metis append_Cons append_Nil)
  with bcast_loop_slowp_mono [OF assms, of post] show ?thesis by metis
qed


lemma slowp_if:
  assumes "rs = pre @ r # post" "\<forall>x\<in>set pre. \<not> breaks x"
    "slowp (bcast_loop (bcast_loop st pre) [r])"
  shows "slowp (bcast_loop st rs)"
proof -
  from assms(3) have "slowp (bcast_loop (bcast_loop st pre) (r # post))"
    by (rule bcast_loop_Cons_mono)
  then show ?thesis
    unfolding assms(1) using bcast_loop_append [OF assms(2), of st "r # post"] by metis
qed

lemma slowp_only_if:
  "slowp (bcast_loop st rs) \<Longrightarrow> \<not> slowp st \<Longrightarrow>
     \<exists>pre r post. rs = pre @ r # post \<and> (\<forall>x\<in>set pre. \<not> breaks x) \<and>
        \<not> slowp (bcast_loop st pre) \<and> slowp (bcast_loop (bcast_loop st pre) [r])"
proof (induction rs rule: rev_induct)
  case Nil
  then show ?case by simp
next
  case (snoc x xs)
  show ?case
  proof (cases "slowp (bcast_loop st xs)")
    case True
    from snoc.IH [OF True snoc.prems(2)] obtain pre r post where
      "xs = pre @ r # post" "\<forall>x\<in>set pre. \<not> breaks x"
      "\<not> slowp (bcast_loop st pre)" "slowp (bcast_loop (bcast_loop st pre) [r])"
      by blast
    moreover from this have "xs @ [x] = pre @ r # (post @ [x])" by simp
    ultimately show ?thesis by blast
  next
    case False
    have nb: "\<forall>y\<in>set xs. \<not> breaks y"
    proof (rule ccontr)
      assume "\<not> (\<forall>y\<in>set xs. \<not> breaks y)"
      then have "\<exists>y\<in>set xs. breaks y" by blast
      from bcast_loop_after_break [OF this, of st "[x]"] False snoc.prems(1)
      show False by simp
    qed
    have "slowp (bcast_loop (bcast_loop st xs) [x])"
      using snoc.prems(1) bcast_loop_append [OF nb, of st "[x]"] by simp
    with nb False show ?thesis by blast
  qed
qed

lemma bcast_init_slowp: "\<not> slowp (bcast_init bm sm)"
  by (simp add: bcast_init_def)

lemma slowp_exactly:
  "slowp (bcastMaxVer rs bm sm) =
     (\<exists>pre r post svm. rs = pre @ r # post \<and> (\<forall>x\<in>set pre. \<not> breaks x) \<and>
        decoded r = Some svm \<and>
        ((\<exists>b mx. BucketMD svm = Some b \<and> 0 < BVersion b \<and>
             maxVerBMD (bcastMaxVer pre bm sm) = Some mx \<and>
             borigin (bcastMaxVer pre bm sm) \<noteq> [] \<and>
             borigin (bcastMaxVer pre bm sm) \<noteq> BUUID b)
         \<or> (\<exists>s mx. Smap svm = Some s \<and> \<not> VoteInProgress svm \<and> 0 < Version s \<and>
             maxVerSmap (bcastMaxVer pre bm sm) = Some mx \<and>
             sorigin (bcastMaxVer pre bm sm) \<noteq> [] \<and>
             sorigin (bcastMaxVer pre bm sm) \<noteq> UUID s)))"
  (is "?L = ?R")
proof
  assume ?L
  then have "slowp (bcast_loop (bcast_init bm sm) rs)"
    by (simp add: bcastMaxVer_def)
  from slowp_only_if [OF this bcast_init_slowp] obtain pre r post where
    rs: "rs = pre @ r # post" and nb: "\<forall>x\<in>set pre. \<not> breaks x" and
    n: "\<not> slowp (bcast_loop (bcast_init bm sm) pre)" and
    y: "slowp (bcast_loop (bcast_loop (bcast_init bm sm) pre) [r])"
    by blast
  from y n show ?R
    unfolding step_slowp bcastMaxVer_def using rs nb by blast
next
  assume ?R
  then obtain pre r post svm where
    rs: "rs = pre @ r # post" and nb: "\<forall>x\<in>set pre. \<not> breaks x" and
    d: "decoded r = Some svm" and
    c: "(\<exists>b mx. BucketMD svm = Some b \<and> 0 < BVersion b \<and>
             maxVerBMD (bcastMaxVer pre bm sm) = Some mx \<and>
             borigin (bcastMaxVer pre bm sm) \<noteq> [] \<and>
             borigin (bcastMaxVer pre bm sm) \<noteq> BUUID b)
         \<or> (\<exists>s mx. Smap svm = Some s \<and> \<not> VoteInProgress svm \<and> 0 < Version s \<and>
             maxVerSmap (bcastMaxVer pre bm sm) = Some mx \<and>
             sorigin (bcastMaxVer pre bm sm) \<noteq> [] \<and>
             sorigin (bcastMaxVer pre bm sm) \<noteq> UUID s)"
    by blast
  have "slowp (bcast_loop (bcast_loop (bcast_init bm sm) pre) [r])"
    unfolding step_slowp using d c unfolding bcastMaxVer_def by blast
  from slowp_if [OF rs nb this] show ?L
    by (simp add: bcastMaxVer_def)
qed

text \<open>Against C3 as stated: the second responder's empty uuid sets \<open>slowp\<close>.\<close>

theorem empty_uuid_counterexample:
  "slowp (bcastMaxVer
     [reply node_t1 False (Some (mk_smap ''U'' 1 (Some node_p1) [node_p1] [node_t1])) None,
      reply node_t2 False (Some (mk_smap [] 1 (Some node_p1) [node_p1] [node_t2])) None]
     None None)"
  by (simp add: bcastMaxVer_def bcast_init_def reply_def mk_smap_def reelecting_def
        reduceBMD_def reduceSmap_def retain_def)


lemma slowp_empty_uuid_second:
  assumes "UUID s1 \<noteq> []" "0 < Version s1" "UUID s2 = []" "0 < Version s2"
  shows "slowp (bcastMaxVer [reply n1 False (Some s1) b1, reply n2 False (Some s2) None] bm sm)"
proof -
  let ?r1 = "reply n1 False (Some s1) b1" and ?r2 = "reply n2 False (Some s2) None"
  have nb: "\<forall>x\<in>set [?r1]. \<not> breaks x"
    by (simp add: breaks_def reply_def reelecting_def)
  have d: "decoded ?r2 = Some \<lparr>VoteInProgress = False, Smap = Some s2, BucketMD = None\<rparr>"
    by (simp add: decoded_def reply_def)
  have st: "maxVerSmap (bcastMaxVer [?r1] bm sm) = Some s1 \<and> sorigin (bcastMaxVer [?r1] bm sm) = UUID s1"
    using assms(2)
    by (simp add: bcastMaxVer_def bcast_init_def reply_def reelecting_def Let_def
          reduceSmap_def reduceBMD_def retain_def split: option.splits)
  show ?thesis
    unfolding slowp_exactly
    apply (rule exI [of _ "[?r1]"], rule exI [of _ ?r2], rule exI [of _ "[]"])
    apply (rule exI [of _ "\<lparr>VoteInProgress = False, Smap = Some s2, BucketMD = None\<rparr>"])
    using nb d st assms by simp
qed

text \<open>Claim C3, amended: \<open>slowp\<close> is set exactly by a later positive-version instance of
  either kind (one that arrives when that kind's running maximum exists) for which the
  origin uuid is non-empty and differs from the instance's uuid, whether or not the
  instance's own uuid is empty.  In particular, after a first responder with a non-empty
  uuid has established the origin uuid, a second responder with a positive-version
  cluster map with an empty uuid does set \<open>slowp\<close>.\<close>

theorem slow_path_trigger:
  "(slowp (bcastMaxVer rs bm sm) =
     (\<exists>pre r post svm. rs = pre @ r # post \<and> (\<forall>x\<in>set pre. \<not> breaks x) \<and>
        decoded r = Some svm \<and>
        ((\<exists>b mx. BucketMD svm = Some b \<and> 0 < BVersion b \<and>
             maxVerBMD (bcastMaxVer pre bm sm) = Some mx \<and>
             borigin (bcastMaxVer pre bm sm) \<noteq> [] \<and>
             borigin (bcastMaxVer pre bm sm) \<noteq> BUUID b)
         \<or> (\<exists>s mx. Smap svm = Some s \<and> \<not> VoteInProgress svm \<and> 0 < Version s \<and>
             maxVerSmap (bcastMaxVer pre bm sm) = Some mx \<and>
             sorigin (bcastMaxVer pre bm sm) \<noteq> [] \<and>
             sorigin (bcastMaxVer pre bm sm) \<noteq> UUID s))))
   \<and> (UUID s1 \<noteq> [] \<and> 0 < Version s1 \<and> UUID s2 = [] \<and> 0 < Version s2 \<longrightarrow>
        slowp (bcastMaxVer [reply n1 False (Some s1) None, reply n2 False (Some s2) None] bm sm))"
  using slowp_exactly [of rs bm sm] slowp_empty_uuid_second [of s1 s2 n1 None n2 bm sm]
  by blast

theorem slow_path_trigger_witness:
  "slowp (bcastMaxVer
     [reply node_p2 False (Some (mk_smap ''A'' 7 (Some node_p2) [node_p2] [])) None,
      reply node_t1 False (Some (mk_smap [] 2 None [] [node_t1])) None]
     (Some []) (Some []))"
  using slow_path_trigger
    [of "[]" "Some []" "Some []" "mk_smap ''A'' 7 (Some node_p2) [node_p2] []"
        "mk_smap [] 2 None [] [node_t1]" node_p2 node_t1]
  by (simp add: mk_smap_def)

subsection \<open>What \<open>uncoverMeta\<close> can return\<close>

lemma in_update_cases:
  "(a, b) \<in> set (AList.update k v l) \<Longrightarrow> (a, b) = (k, v) \<or> (a, b) \<in> set l"
  by (induction l) (auto split: if_splits)


lemma positive_reduceBMD: "positive_st st \<Longrightarrow> positive_st (reduceBMD st svm)"
  by (auto simp: positive_st_def reduceBMD_def split: option.splits)

lemma positive_reduceSmap: "positive_st st \<Longrightarrow> positive_st (reduceSmap st svm)"
  by (auto simp: positive_st_def reduceSmap_def split: option.splits)

lemma positive_retain: "positive_st st \<Longrightarrow> positive_st (retain n svm st)"
  by (auto simp: positive_st_def retain_def map_entries_def list_all_iff Let_def
        dest!: in_update_cases split: option.splits)

lemma positive_bcast_loop: "positive_st st \<Longrightarrow> positive_st (bcast_loop st rs)"
proof (induction rs arbitrary: st)
  case Nil
  then show ?case by simp
next
  case (Cons r rs)
  have d: "positive_st (st\<lparr>done' := False\<rparr>)"
    using Cons.prems by (simp add: positive_st_def)
  show ?case
  proof (cases "decoded r")
    case None
    then have "bcast_loop st (r # rs) = bcast_loop (st\<lparr>done' := False\<rparr>) rs"
      by (auto simp: decoded_def split: option.splits)
    with Cons.IH [OF d] show ?thesis by simp
  next
    case (Some svm)
    show ?thesis
    proof (cases "reelecting svm")
      case True
      with Some have "bcast_loop st (r # rs) =
          (reduceBMD st svm)\<lparr>maxVerSmap := None, maxVerBMD := None, done' := False\<rparr>"
        by (auto simp: decoded_def Let_def split: option.splits)
      moreover have "positive_st ((reduceBMD st svm)\<lparr>maxVerSmap := None, maxVerBMD := None, done' := False\<rparr>)"
        using positive_reduceBMD [OF Cons.prems, of svm] by (simp add: positive_st_def)
      ultimately show ?thesis by simp
    next
      case False
      with Some have "bcast_loop st (r # rs) =
          bcast_loop (retain (si r) svm (reduceSmap (reduceBMD st svm) svm)) rs"
        by (auto simp: decoded_def Let_def split: option.splits)
      with Cons.IH [OF positive_retain [OF positive_reduceSmap [OF positive_reduceBMD [OF Cons.prems]]]]
      show ?thesis by simp
    qed
  qed
qed

lemma positive_bcastMaxVer: "positive_st (bcastMaxVer rs bm sm)"
  unfolding bcastMaxVer_def
  by (rule positive_bcast_loop)
     (simp add: positive_st_def bcast_init_def map_entries_def split: option.splits)

lemma positive_uncover_loop: "positive_st (uncover_loop bcast i k)"
  by (induction k arbitrary: i) (simp_all add: positive_bcastMaxVer Let_def)

lemma positive_maxver_loop:
  "list_all (\<lambda>(n, s). 0 < Version s) l \<Longrightarrow> (case mx of None \<Rightarrow> True | Some m \<Rightarrow> 0 < Version m) \<Longrightarrow>
     maxver_loop suuid mx l = Some m' \<Longrightarrow> 0 < Version m'"
  by (induction suuid mx l rule: maxver_loop.induct) (auto split: option.splits if_splits)

lemma uncoverMeta_positive:
  assumes "uncoverMeta resolveUUIDBMD bcast nrounds = Inr (Some mx, mb)"
  shows "0 < Version mx"
proof -
  let ?st = "uncover_loop bcast 0 nrounds"
  have p: "positive_st ?st" by (rule positive_uncover_loop)
  show ?thesis
  proof (cases "slowp ?st")
    case False
    with assms have "maxVerSmap ?st = Some mx"
      by (simp add: uncoverMeta_def Let_def)
    with p show ?thesis by (simp add: positive_st_def)
  next
    case True
    with assms obtain suuid where
      "maxver_loop suuid (maxVerSmap ?st) (map_entries (smaps ?st)) = Some mx"
      by (auto simp: uncoverMeta_def Let_def split: prod.splits option.splits bmd_err.splits sum.splits)
    with p positive_maxver_loop show ?thesis
      unfolding positive_st_def by blast
  qed
qed


subsection \<open>Slow-path resolution of the cluster map\<close>

text \<open>Claim C4 at a failing input.  A gateway answers first with a map of uuid \<open>B\<close>,
  version 10; a target answers with a map of uuid \<open>A\<close>, version 3.  The targets agree
  on \<open>A\<close>, yet \<open>uncoverMeta\<close> returns the gateway's map of uuid \<open>B\<close>: the second
  loop starts from the maximum the reducer left and only replaces it by a map of
  higher version.  With the same two answers in the other order it returns the target's
  map.\<close>

theorem uncoverMeta_keeps_foreign_uuid:
  "uncoverMeta no_bmd (\<lambda>i. stale_gateway) 0
     = Inr (Some (mk_smap ''B'' 10 (Some node_p2) [node_p2] []), None)
   \<and> slowp (uncover_loop (\<lambda>i. stale_gateway) 0 0)
   \<and> suuid_loop [] (map_entries (smaps (uncover_loop (\<lambda>i. stale_gateway) 0 0))) = Inr ''A''
   \<and> uncoverMeta no_bmd (\<lambda>i. rev stale_gateway) 0
     = Inr (Some (mk_smap ''A'' 3 (Some node_p1) [node_p1] [node_t1]), None)"
  by (simp add: uncoverMeta_def stale_gateway_def no_bmd_def bcastMaxVer_def bcast_init_def
        reply_def mk_smap_def reelecting_def reduceBMD_def reduceSmap_def retain_def
        map_entries_def IsTarget_def node_p1_def node_p2_def node_t1_def ID_def)

subsection \<open>Classification in \<open>discoverMeta\<close>\<close>

text \<open>Claim C1 on the code: when the maximum names no other primary and the comparison
  finds the element sets different, \<open>discoverMeta\<close> leaves the process whatever the
  strict merge returns, a nil error included; the merged clone is never installed.\<close>

theorem strict_merge_always_exits:
  assumes "uncoverMeta resolveUUIDBMD bcast nrounds = Inr (Some mx, mb)"
    and "Compare smap mx = (True, sameVersion, False)"
    and "\<not> otherPrimary mx self"
  shows "discoverMeta Compare merge resolveUUIDBMD self bcast nrounds ow smap
           = Inl (ExitMerge (snd (snd (merge mx (owner_smap (install_bmd mb ow)) False))))"
proof -
  from uncoverMeta_positive [OF assms(1)] have "Version mx \<noteq> 0" by simp
  with assms show ?thesis
    by (simp add: discoverMeta_def classify_def Let_def split: prod.splits)
qed


theorem strict_merge_always_exits_witness:
  "discoverMeta differs_by_node merge_adds_one no_bmd node_p1
     (\<lambda>i. [reply node_t1 False (Some (mk_smap ''U'' 5 (Some node_p1) [node_p1] [node_t1])) None]) 0
     (empty_owner (mk_smap ''U'' 4 (Some node_p1) [node_p1] []))
     (mk_smap ''U'' 4 (Some node_p1) [node_p1] [])
   = Inl (ExitMerge None)"
proof -
  have u: "uncoverMeta no_bmd
      (\<lambda>i. [reply node_t1 False (Some (mk_smap ''U'' 5 (Some node_p1) [node_p1] [node_t1])) None]) 0
      = Inr (Some (mk_smap ''U'' 5 (Some node_p1) [node_p1] [node_t1]), None)"
    by (simp add: uncoverMeta_def bcastMaxVer_def bcast_init_def reply_def mk_smap_def
          reelecting_def reduceBMD_def reduceSmap_def retain_def)
  have c: "differs_by_node (mk_smap ''U'' 4 (Some node_p1) [node_p1] [])
      (mk_smap ''U'' 5 (Some node_p1) [node_p1] [node_t1]) = (True, False, False)"
    by (simp add: differs_by_node_def)
  have o: "\<not> otherPrimary (mk_smap ''U'' 5 (Some node_p1) [node_p1] [node_t1]) node_p1"
    by (simp add: otherPrimary_def mk_smap_def)
  from u c o strict_merge_always_exits
    [where Compare = differs_by_node and merge = merge_adds_one and resolveUUIDBMD = no_bmd
       and nrounds = 0 and mb = None and sameVersion = False and self = node_p1
       and mx = "mk_smap ''U'' 5 (Some node_p1) [node_p1] [node_t1]"
       and smap = "mk_smap ''U'' 4 (Some node_p1) [node_p1] []"
       and ow = "empty_owner (mk_smap ''U'' 4 (Some node_p1) [node_p1] [])"
       and bcast = "\<lambda>i. [reply node_t1 False
              (Some (mk_smap ''U'' 5 (Some node_p1) [node_p1] [node_t1])) None]"]
  show ?thesis by (simp add: merge_adds_one_def)
qed

lemma has_proxy_addProxy: "has_proxy (addProxy self m) self"
  by (simp add: has_proxy_def addProxy_def update_conv')

lemma otherPrimary_addProxy: "otherPrimary mx self \<Longrightarrow> \<not> isPrimary (addProxy self mx) self"
  by (auto simp: otherPrimary_def isPrimary_def addProxy_def split: option.splits)

lemma discoverMeta_other_primary:
  assumes "uncoverMeta resolveUUIDBMD bcast nrounds = Inr (Some mx, mb)"
    and "Compare smap mx = (True, sameVersion, eq)"
    and "\<not> (eq \<and> sameVersion)"
    and "otherPrimary mx self"
  shows "discoverMeta Compare merge resolveUUIDBMD self bcast nrounds ow smap
           = (if Version smap < Version mx
              then Inr (put_smap (addProxy self mx) (install_bmd mb ow))
              else Inl (ExitCIE 20))"
proof -
  from uncoverMeta_positive [OF assms(1)] have "Version mx \<noteq> 0" by simp
  with assms show ?thesis
    by (auto simp: discoverMeta_def classify_def Let_def split: prod.splits)
qed

lemma discoverMeta_identical:
  assumes "uncoverMeta resolveUUIDBMD bcast nrounds = Inr (Some mx, mb)"
    and "Compare smap mx = (True, True, True)"
  shows "discoverMeta Compare merge resolveUUIDBMD self bcast nrounds ow smap
           = Inr (install_bmd mb ow)"
proof -
  from uncoverMeta_positive [OF assms(1)] have "Version mx \<noteq> 0" by simp
  with assms show ?thesis
    by (simp add: discoverMeta_def classify_def Let_def)
qed

text \<open>Against C5 as stated: the current map and the maximum are one and the same map,
  which names \<open>p2\<close> as primary (this node has lost the primary role during the
  registration window and its installed map is what a peer reports).  The maximum has
  the same uuid, names a primary other than this node, and its version is not greater
  than the current one; \<open>discoverMeta\<close> neither demotes nor exits: it returns at
  lines 329--331 with the owners untouched.\<close>

theorem identical_map_counterexample:
  "discoverMeta finds_identical merge_adds_one no_bmd node_p1
     (\<lambda>i. [reply node_p2 False
              (Some (mk_smap ''U'' 9 (Some node_p2) [node_p1, node_p2] [node_t1])) None]) 0
     (empty_owner (mk_smap ''U'' 9 (Some node_p2) [node_p1, node_p2] [node_t1]))
     (mk_smap ''U'' 9 (Some node_p2) [node_p1, node_p2] [node_t1])
   = Inr (empty_owner (mk_smap ''U'' 9 (Some node_p2) [node_p1, node_p2] [node_t1]))
   \<and> otherPrimary (mk_smap ''U'' 9 (Some node_p2) [node_p1, node_p2] [node_t1]) node_p1
   \<and> Version (mk_smap ''U'' 9 (Some node_p2) [node_p1, node_p2] [node_t1])
       \<le> Version (mk_smap ''U'' 9 (Some node_p2) [node_p1, node_p2] [node_t1])"
  by (simp add: discoverMeta_def classify_def uncoverMeta_def bcastMaxVer_def bcast_init_def
        reply_def mk_smap_def reelecting_def reduceBMD_def reduceSmap_def retain_def
        finds_identical_def install_bmd_def otherPrimary_def empty_owner_def
        node_p1_def node_p2_def ID_def)

text \<open>Claim C5, amended: when \<open>discoverMeta\<close> finds the maximum to have the same uuid as
  the current map and the maximum names a primary other than this node, exactly one of
  three things happens.  If the comparison finds the two maps identical (same version,
  equal elements), discovery returns with no map installed.  Otherwise, if the version of
  the maximum is strictly greater, the maximum is installed with this node added to its
  gateways and start-up continues on the secondary track; and if it is less or equal, the
  process exits with cluster-integrity error 20.\<close>

theorem demote_or_split_brain:
  assumes "uncoverMeta resolveUUIDBMD bcast nrounds = Inr (Some mx, mb)"
    and "Compare smap mx = (True, sameVersion, eq)"
    and "otherPrimary mx self"
  shows "discoverMeta Compare merge resolveUUIDBMD self bcast nrounds ow smap
           = (if eq \<and> sameVersion then Inr (install_bmd mb ow)
              else if Version smap < Version mx
              then Inr (put_smap (addProxy self mx) (install_bmd mb ow))
              else Inl (ExitCIE 20))
     \<and> puts (install_bmd mb ow) = puts ow
     \<and> has_proxy (addProxy self mx) self
     \<and> finalize w self (put_smap (addProxy self mx) (install_bmd mb ow))
         = joinOrExit w (addProxy self mx) (put_smap (addProxy self mx) (install_bmd mb ow))"
proof -
  have "discoverMeta Compare merge resolveUUIDBMD self bcast nrounds ow smap
           = (if eq \<and> sameVersion then Inr (install_bmd mb ow)
              else if Version smap < Version mx
              then Inr (put_smap (addProxy self mx) (install_bmd mb ow))
              else Inl (ExitCIE 20))"
  proof (cases "eq \<and> sameVersion")
    case True
    with assms(2) have "Compare smap mx = (True, True, True)" by simp
    with assms(1) have "discoverMeta Compare merge resolveUUIDBMD self bcast nrounds ow smap
           = Inr (install_bmd mb ow)"
      by (rule discoverMeta_identical)
    with True show ?thesis by simp
  next
    case False
    have "discoverMeta Compare merge resolveUUIDBMD self bcast nrounds ow smap
           = (if Version smap < Version mx
              then Inr (put_smap (addProxy self mx) (install_bmd mb ow))
              else Inl (ExitCIE 20))"
      using assms(1,2) False assms(3) by (rule discoverMeta_other_primary)
    with False show ?thesis by auto
  qed
  moreover have "finalize w self (put_smap (addProxy self mx) (install_bmd mb ow))
         = joinOrExit w (addProxy self mx) (put_smap (addProxy self mx) (install_bmd mb ow))"
    using otherPrimary_addProxy [OF assms(3)]
    by (simp add: finalize_def put_smap_def Let_def)
  moreover have "puts (install_bmd mb ow) = puts ow"
    by (simp add: install_bmd_def split: option.splits)
  ultimately show ?thesis
    using has_proxy_addProxy by blast
qed

theorem demote_or_split_brain_witness:
  "discoverMeta differs_by_node merge_adds_one no_bmd node_p1
     (\<lambda>i. [reply node_p2 False (Some (mk_smap ''U'' 9 (Some node_p2) [node_p2] [node_t1])) None]) 0
     (empty_owner (mk_smap ''U'' 4 (Some node_p1) [node_p1] []))
     (mk_smap ''U'' 4 (Some node_p1) [node_p1] [])
   = Inr (put_smap (addProxy node_p1 (mk_smap ''U'' 9 (Some node_p2) [node_p2] [node_t1]))
           (empty_owner (mk_smap ''U'' 4 (Some node_p1) [node_p1] [])))
   \<and> discoverMeta differs_by_node merge_adds_one no_bmd node_p1
     (\<lambda>i. [reply node_p2 False (Some (mk_smap ''U'' 9 (Some node_p2) [node_p2] [node_t1])) None]) 0
     (empty_owner (mk_smap ''U'' 9 (Some node_p1) [node_p1] []))
     (mk_smap ''U'' 9 (Some node_p1) [node_p1] [])
   = Inl (ExitCIE 20)"
proof -
  have u: "uncoverMeta no_bmd
      (\<lambda>i. [reply node_p2 False (Some (mk_smap ''U'' 9 (Some node_p2) [node_p2] [node_t1])) None]) 0
      = Inr (Some (mk_smap ''U'' 9 (Some node_p2) [node_p2] [node_t1]), None)"
    by (simp add: uncoverMeta_def bcastMaxVer_def bcast_init_def reply_def mk_smap_def
          reelecting_def reduceBMD_def reduceSmap_def retain_def)
  have c: "differs_by_node s (mk_smap ''U'' 9 (Some node_p2) [node_p2] [node_t1])
       = (True, False, False)" for s
    by (simp add: differs_by_node_def)
  have o: "otherPrimary (mk_smap ''U'' 9 (Some node_p2) [node_p2] [node_t1]) node_p1"
    by (simp add: otherPrimary_def mk_smap_def node_p1_def node_p2_def ID_def)
  note inst = demote_or_split_brain
    [where Compare = differs_by_node and merge = merge_adds_one and resolveUUIDBMD = no_bmd
       and nrounds = 0 and mb = None and sameVersion = False and eq = False
       and self = node_p1 and w = quiet_world
       and mx = "mk_smap ''U'' 9 (Some node_p2) [node_p2] [node_t1]"
       and bcast = "\<lambda>i. [reply node_p2 False
              (Some (mk_smap ''U'' 9 (Some node_p2) [node_p2] [node_t1])) None]"]
  from u c o
    inst [where smap = "mk_smap ''U'' 4 (Some node_p1) [node_p1] []"
            and ow = "empty_owner (mk_smap ''U'' 4 (Some node_p1) [node_p1] [])"]
    inst [where smap = "mk_smap ''U'' 9 (Some node_p1) [node_p1] []"
            and ow = "empty_owner (mk_smap ''U'' 9 (Some node_p1) [node_p1] [])"]
  show ?thesis by (simp add: install_bmd_def mk_smap_def)
qed

subsection \<open>The registration window\<close>

declare accept_loop.simps [simp del]


text \<open>One iteration of the loop, written as a chain of tests.\<close>

lemma accept_loop_step:
  "accept_loop self env L config nt i wtime checked sent =
     (if \<not> elapsed_loop env i < wtime
        then Inr \<lparr>wnd_smap = None, wnd_exit = TimedOut i, wnd_probes = sent\<rparr>
      else if \<not> isPrimary (cur (env i)) self
        then Inr \<lparr>wnd_smap = None, wnd_exit = NotPrimary i, wnd_probes = sent\<rparr>
      else if nt \<le> int (CountTargets (cur (env i))) \<and> 0 < nt
        then Inr \<lparr>wnd_smap = None, wnd_exit = ReachedTargets i, wnd_probes = sent\<rparr>
      else if checked
        then accept_loop self env L config nt (Suc i)
               (if 0 < CountTargets (cur (env i)) then Startup config else wtime) True sent
      else
        (case L of
           None \<Rightarrow> Inl PanicNilDeref
         | Some l \<Rightarrow>
             if 0 < CountTargets l \<and> wrap64 (2 * MaxKeepalive config) < elapsed_probe env i then
               (if supersedes (bcastMaxVer (probe (env i)) None None) l self
                then Inr \<lparr>wnd_smap = maxVerSmap (bcastMaxVer (probe (env i)) None None),
                          wnd_exit = Superseded i, wnd_probes = sent @ [i]\<rparr>
                else accept_loop self env L config nt (Suc i)
                       (if 0 < CountTargets (cur (env i)) then Startup config else wtime) True
                       (sent @ [i]))
             else accept_loop self env L config nt (Suc i)
                    (if 0 < CountTargets (cur (env i)) then Startup config else wtime) False sent))"
  by (subst accept_loop.simps) (simp add: Let_def split: option.splits)

text \<open>Induction along the loop: the hypothesis is available for whatever state the next
  iteration starts in.\<close>

lemma accept_loop_induct:
  assumes step: "\<And>i wtime checked sent.
      (\<And>c s. elapsed_loop env i < wtime \<Longrightarrow>
          P (Suc i) (if 0 < CountTargets (cur (env i)) then Startup config else wtime) c s)
      \<Longrightarrow> P i wtime checked sent"
  shows "P i wtime checked sent"
proof (induction "nat (max wtime (Startup config) - int i * second)"
         arbitrary: i wtime checked sent rule: less_induct)
  case less
  show ?case
  proof (rule step)
    fix c s
    assume g: "elapsed_loop env i < wtime"
    let ?W = "if 0 < CountTargets (cur (env i)) then Startup config else wtime"
    have "int i * second < wtime"
      using g by (simp add: elapsed_loop_def)
    moreover have "max ?W (Startup config) \<le> max wtime (Startup config)"
      by simp
    moreover have "int (Suc i) * second = int i * second + second"
      by (simp add: algebra_simps)
    moreover have "0 < second"
      by (simp add: second_def)
    ultimately have "nat (max ?W (Startup config) - int (Suc i) * second)
        < nat (max wtime (Startup config) - int i * second)"
      by linarith
    then show "P (Suc i) ?W c s"
      by (rule less)
  qed
qed



text \<open>The ways one iteration can end.\<close>

lemma accept_loop_cases:
  assumes "accept_loop self env L config nt i wtime checked sent = Inr wnd"
  obtains
    (timeout) "\<not> elapsed_loop env i < wtime"
      "wnd = \<lparr>wnd_smap = None, wnd_exit = TimedOut i, wnd_probes = sent\<rparr>"
  | (notprimary) "elapsed_loop env i < wtime" "\<not> isPrimary (cur (env i)) self"
      "wnd = \<lparr>wnd_smap = None, wnd_exit = NotPrimary i, wnd_probes = sent\<rparr>"
  | (reached) "elapsed_loop env i < wtime" "isPrimary (cur (env i)) self"
      "nt \<le> int (CountTargets (cur (env i)))" "0 < nt"
      "wnd = \<lparr>wnd_smap = None, wnd_exit = ReachedTargets i, wnd_probes = sent\<rparr>"
  | (superseded) l where "elapsed_loop env i < wtime" "isPrimary (cur (env i)) self"
      "\<not> checked" "L = Some l" "0 < CountTargets l"
      "wrap64 (2 * MaxKeepalive config) < elapsed_probe env i"
      "supersedes (bcastMaxVer (probe (env i)) None None) l self"
      "wnd = \<lparr>wnd_smap = maxVerSmap (bcastMaxVer (probe (env i)) None None),
              wnd_exit = Superseded i, wnd_probes = sent @ [i]\<rparr>"
  | (continue) c s where "elapsed_loop env i < wtime" "isPrimary (cur (env i)) self"
      "accept_loop self env L config nt (Suc i)
         (if 0 < CountTargets (cur (env i)) then Startup config else wtime) c s = Inr wnd"
      "(s = sent \<and> (checked \<longrightarrow> c)) \<or>
       (\<not> checked \<and> c \<and> s = sent @ [i] \<and>
        (\<exists>l. L = Some l \<and> 0 < CountTargets l \<and> wrap64 (2 * MaxKeepalive config) < elapsed_probe env i))"
proof (cases "elapsed_loop env i < wtime")
  case False
  with assms timeout show ?thesis
    by (subst (asm) accept_loop_step) simp
next
  case t: True
  show ?thesis
  proof (cases "isPrimary (cur (env i)) self")
    case False
    with assms t notprimary show ?thesis
      by (subst (asm) accept_loop_step) simp
  next
    case p: True
    show ?thesis
    proof (cases "nt \<le> int (CountTargets (cur (env i))) \<and> 0 < nt")
      case True
      with assms t p reached show ?thesis
        by (subst (asm) accept_loop_step) simp
    next
      case r: False
      show ?thesis
      proof (cases checked)
        case True
        with assms t p r have
          "accept_loop self env L config nt (Suc i)
             (if 0 < CountTargets (cur (env i)) then Startup config else wtime) True sent = Inr wnd"
          by (subst (asm) accept_loop_step) simp
        with t p True show ?thesis
          by (intro continue [of True sent]) simp_all
      next
        case c: False
        from assms t p r c obtain l where l: "L = Some l"
          by (subst (asm) accept_loop_step) (auto split: option.splits)
        show ?thesis
        proof (cases "0 < CountTargets l \<and> wrap64 (2 * MaxKeepalive config) < elapsed_probe env i")
          case False
          with assms t p r c l have
            "accept_loop self env L config nt (Suc i)
               (if 0 < CountTargets (cur (env i)) then Startup config else wtime) False sent = Inr wnd"
            by (subst (asm) accept_loop_step) simp
          with t p c show ?thesis
            by (intro continue [of False sent]) simp_all
        next
          case d: True
          show ?thesis
          proof (cases "supersedes (bcastMaxVer (probe (env i)) None None) l self")
            case True
            with assms t p r c l d superseded show ?thesis
              by (subst (asm) accept_loop_step) simp
          next
            case False
            with assms t p r c l d have
              "accept_loop self env L config nt (Suc i)
                 (if 0 < CountTargets (cur (env i)) then Startup config else wtime) True (sent @ [i])
                 = Inr wnd"
              by (subst (asm) accept_loop_step) simp
            with t p c l d show ?thesis
              by (intro continue [of True "sent @ [i]"]) simp_all
          qed
        qed
      qed
    qed
  qed
qed

lemma accept_loop_timeout_ge:
  "accept_loop self env L config nt i wtime checked sent = Inr wnd \<Longrightarrow>
   wnd_exit wnd = TimedOut n \<Longrightarrow> i \<le> n \<and> wnd_smap wnd = None"
proof (induction i wtime checked sent rule: accept_loop_induct [where env = env and config = config])
  case (1 i wtime checked sent)
  from "1.prems"(1) show ?case
  proof (cases rule: accept_loop_cases)
    case (continue c s)
    from "1.IH" [OF continue(1,3) "1.prems"(2)] show ?thesis by simp
  qed (use "1.prems"(2) in simp_all)
qed


lemma accept_loop_full_window:
  "accept_loop self env L config nt i wtime checked sent = Inr wnd \<Longrightarrow>
   wnd_exit wnd = TimedOut n \<Longrightarrow> wtime = Startup config \<Longrightarrow>
     Startup config \<le> elapsed_loop env n"
proof (induction i wtime checked sent rule: accept_loop_induct [where env = env and config = config])
  case (1 i wtime checked sent)
  from "1.prems"(1) show ?case
  proof (cases rule: accept_loop_cases)
    case (continue c s)
    from "1.IH" [OF continue(1,3) "1.prems"(2)] "1.prems"(3) show ?thesis by simp
  qed (use "1.prems"(2,3) in simp_all)
qed

lemma accept_loop_after_target:
  "accept_loop self env L config nt i wtime checked sent = Inr wnd \<Longrightarrow>
   wnd_exit wnd = TimedOut n \<Longrightarrow> i \<le> j \<Longrightarrow> j < n \<Longrightarrow> 0 < CountTargets (cur (env j)) \<Longrightarrow>
     Startup config \<le> elapsed_loop env n"
proof (induction i wtime checked sent rule: accept_loop_induct [where env = env and config = config])
  case (1 i wtime checked sent)
  from "1.prems"(1) show ?case
  proof (cases rule: accept_loop_cases)
    case (continue c s)
    show ?thesis
    proof (cases "j = i")
      case True
      with continue(3) "1.prems"(5) have
        "accept_loop self env L config nt (Suc i) (Startup config) c s = Inr wnd"
        by simp
      from accept_loop_full_window [OF this "1.prems"(2) refl] show ?thesis .
    next
      case False
      with "1.prems"(3) have "Suc i \<le> j" by simp
      from "1.IH" [OF continue(1,3) "1.prems"(2) this "1.prems"(4,5)] show ?thesis .
    qed
  qed (use "1.prems"(2,3,4) in simp_all)
qed

lemma accept_loop_half_window:
  "accept_loop self env L config nt i wtime checked sent = Inr wnd \<Longrightarrow>
   wnd_exit wnd = TimedOut n \<Longrightarrow>
   (\<forall>j. i \<le> j \<and> j < n \<longrightarrow> CountTargets (cur (env j)) = 0) \<Longrightarrow>
     wtime \<le> elapsed_loop env n \<and> (\<forall>j. i \<le> j \<and> j < n \<longrightarrow> elapsed_loop env j < wtime)"
proof (induction i wtime checked sent rule: accept_loop_induct [where env = env and config = config])
  case (1 i wtime checked sent)
  from "1.prems"(1) show ?case
  proof (cases rule: accept_loop_cases)
    case (continue c s)
    from accept_loop_timeout_ge [OF continue(3) "1.prems"(2)] have n: "Suc i \<le> n" by simp
    with "1.prems"(3) have z: "CountTargets (cur (env i)) = 0" by simp
    have rest: "\<forall>j. Suc i \<le> j \<and> j < n \<longrightarrow> CountTargets (cur (env j)) = 0"
      using "1.prems"(3) by simp
    from "1.IH" [OF continue(1,3) "1.prems"(2)] z rest have
      a: "wtime \<le> elapsed_loop env n" and
      b: "\<forall>j. Suc i \<le> j \<and> j < n \<longrightarrow> elapsed_loop env j < wtime"
      by simp_all
    have "elapsed_loop env j < wtime" if "i \<le> j" "j < n" for j
    proof (cases "j = i")
      case True
      with continue(1) show ?thesis by simp
    next
      case False
      with that b show ?thesis by simp
    qed
    with a show ?thesis by blast
  qed (use "1.prems"(2) in simp_all)
qed

lemma accept_loop_primary:
  "accept_loop self env L config nt i wtime checked sent = Inr wnd \<Longrightarrow>
     i \<le> exit_index (wnd_exit wnd) \<and>
     (\<forall>j. i \<le> j \<and> j < exit_index (wnd_exit wnd) \<longrightarrow> isPrimary (cur (env j)) self) \<and>
     (\<forall>k. wnd_exit wnd = NotPrimary k \<longrightarrow> wnd_smap wnd = None \<and> \<not> isPrimary (cur (env k)) self)"
proof (induction i wtime checked sent rule: accept_loop_induct [where env = env and config = config])
  case (1 i wtime checked sent)
  from "1.prems"(1) show ?case
  proof (cases rule: accept_loop_cases)
    case (continue c s)
    from "1.IH" [OF continue(1,3)] have
      a: "Suc i \<le> exit_index (wnd_exit wnd)" and
      b: "\<forall>j. Suc i \<le> j \<and> j < exit_index (wnd_exit wnd) \<longrightarrow> isPrimary (cur (env j)) self" and
      c: "\<forall>k. wnd_exit wnd = NotPrimary k \<longrightarrow> wnd_smap wnd = None \<and> \<not> isPrimary (cur (env k)) self"
      by blast+
    have "isPrimary (cur (env j)) self" if "i \<le> j" "j < exit_index (wnd_exit wnd)" for j
    proof (cases "j = i")
      case True
      with continue(2) show ?thesis by simp
    next
      case False
      with that b show ?thesis by simp
    qed
    with a c show ?thesis by auto
  qed (auto simp: exit_index_def)
qed

lemma accept_loop_probe:
  "accept_loop self env L config nt i wtime checked sent = Inr wnd \<Longrightarrow>
     (wnd_probes wnd = sent \<and> wnd_smap wnd = None) \<or>
     (\<not> checked \<and>
      (\<exists>j l. wnd_probes wnd = sent @ [j] \<and> L = Some l \<and> 0 < CountTargets l \<and>
          wrap64 (2 * MaxKeepalive config) < elapsed_probe env j \<and>
          (wnd_smap wnd = None \<or>
             (wnd_smap wnd = maxVerSmap (bcastMaxVer (probe (env j)) None None) \<and>
              supersedes (bcastMaxVer (probe (env j)) None None) l self))))"
proof (induction i wtime checked sent rule: accept_loop_induct [where env = env and config = config])
  case (1 i wtime checked sent)
  from "1.prems"(1) show ?case
  proof (cases rule: accept_loop_cases)
    case (continue c s)
    from continue(4) "1.IH" [OF continue(1,3)] show ?thesis
      by auto
  qed auto
qed

lemma accept_loop_any_count:
  "accept_loop self env L config nt i wtime checked sent = Inr wnd \<Longrightarrow> nt \<le> 0 \<Longrightarrow>
     wnd_exit wnd \<noteq> ReachedTargets n"
proof (induction i wtime checked sent rule: accept_loop_induct [where env = env and config = config])
  case (1 i wtime checked sent)
  from "1.prems"(1) show ?case
  proof (cases rule: accept_loop_cases)
    case (continue c s)
    from "1.IH" [OF continue(1,3) "1.prems"(2)] show ?thesis .
  qed (use "1.prems"(2) in simp_all)
qed

text \<open>The window always returns: the loop ends, and the probe is only considered while
  a loaded map exists.\<close>

lemma accept_loop_returns:
  "checked \<or> L \<noteq> None \<Longrightarrow>
     \<exists>wnd. accept_loop self env L config nt i wtime checked sent = Inr wnd"
proof (induction i wtime checked sent rule: accept_loop_induct [where env = env and config = config])
  case (1 i wtime checked sent)
  show ?case
  proof (cases "elapsed_loop env i < wtime")
    case False
    then show ?thesis by (subst accept_loop_step) simp
  next
    case True
    note ih = "1.IH" [OF True]
    from "1.prems" ih [of True sent] ih [of True "sent @ [i]"] ih [of False sent]
    show ?thesis
      by (subst accept_loop_step) (auto split: option.splits)
  qed
qed

lemma acceptRegistrations_returns:
  "CountTargets smap = 0 \<Longrightarrow>
     \<exists>wnd. acceptRegistrations self env smap loadedSmap config ntargets = Inr wnd"
proof -
  assume z: "CountTargets smap = 0"
  have "loadedSmap = None \<or> loadedSmap \<noteq> None" by blast
  from accept_loop_returns [OF this] z show ?thesis
    by (simp add: acceptRegistrations_def)
qed

lemma supersedes_other:
  "supersedes st l self \<Longrightarrow>
     \<exists>mx. maxVerSmap st = Some mx \<and> \<not> slowp st \<and> UUID mx = UUID l \<and> Version l < Version mx \<and>
       (\<exists>pr. ProxySI mx = Some pr \<and> ID pr \<noteq> ID self) \<and> \<not> isPrimary mx self"
  by (auto simp: supersedes_def otherPrimary_def isPrimary_def split: option.splits)

lemma wrap64_id: "- (2 ^ 63) \<le> v \<Longrightarrow> v < 2 ^ 63 \<Longrightarrow> wrap64 v = v"
  by (simp add: wrap64_def)

text \<open>Against C6 as stated: with a maximum keepalive of \<open>2 ^ 62\<close> nanoseconds the
  \<open>int64\<close> product \<open>2 * MaxKeepalive\<close> is negative, and the probe is sent in the very
  first iteration, one second after the start, long before twice the maximum keepalive
  has elapsed.\<close>

theorem probe_on_overflow_counterexample:
  "acceptRegistrations node_p1 (steady (selfOnly node_p1) []) (selfOnly node_p1)
     (Some (mk_smap ''U'' 7 (Some node_p1) [node_p1, node_p2] [node_t1])) long_keepalive 0
     = Inr \<lparr>wnd_smap = None, wnd_exit = TimedOut 5, wnd_probes = [0]\<rparr>
   \<and> \<not> 2 * MaxKeepalive long_keepalive < elapsed_probe (steady (selfOnly node_p1) []) 0"
  by (simp add: acceptRegistrations_def accept_loop_step steady_def long_keepalive_def
        elapsed_loop_def elapsed_probe_def second_def quo2_def selfOnly_def addProxy_def
        newSmap_def isPrimary_def CountTargets_def mk_smap_def supersedes_def wrap64_def
        bcastMaxVer_def bcast_init_def eval_nat_numeral)

text \<open>Claim C6, amended: the probe of the registration window is sent at most once, and
  only when a loaded map with at least one target exists and more than the \<open>int64\<close>
  product \<open>2 * MaxKeepalive\<close> has elapsed, which is twice the maximum keepalive whenever
  the maximum keepalive lies between \<open>- 2 ^ 62\<close> and \<open>2 ^ 62\<close> nanoseconds; the window
  returns a cluster map only when the reduced result of that probe is on the fast path,
  has the uuid of the loaded map, a strictly greater version and a primary whose id is
  not this node's.  Hence the map returned never names this node as primary.\<close>

theorem probe_once_never_self:
  assumes "acceptRegistrations self env smap loadedSmap config ntargets = Inr wnd"
  shows "length (wnd_probes wnd) \<le> 1
     \<and> (\<forall>i\<in>set (wnd_probes wnd). \<exists>l. loadedSmap = Some l \<and> 0 < CountTargets l \<and>
            wrap64 (2 * MaxKeepalive config) < elapsed_probe env i \<and>
            (- (2 ^ 62) \<le> MaxKeepalive config \<and> MaxKeepalive config < 2 ^ 62 \<longrightarrow>
               2 * MaxKeepalive config < elapsed_probe env i))
     \<and> (\<forall>mx. wnd_smap wnd = Some mx \<longrightarrow>
           (\<exists>l i. loadedSmap = Some l \<and> wnd_probes wnd = [i] \<and>
              maxVerSmap (bcastMaxVer (probe (env i)) None None) = Some mx \<and>
              \<not> slowp (bcastMaxVer (probe (env i)) None None) \<and>
              UUID mx = UUID l \<and> Version l < Version mx \<and>
              (\<exists>pr. ProxySI mx = Some pr \<and> ID pr \<noteq> ID self) \<and> \<not> isPrimary mx self))"
proof -
  from assms have
    "accept_loop self env loadedSmap config ntargets 0 (quo2 (Startup config))
       (loadedSmap = None) [] = Inr wnd"
    by (simp add: acceptRegistrations_def split: if_splits)
  from accept_loop_probe [OF this] consider
      (quiet) "wnd_probes wnd = []" "wnd_smap wnd = None"
    | (probed) j l where "wnd_probes wnd = [j]" "loadedSmap = Some l" "0 < CountTargets l"
        "wrap64 (2 * MaxKeepalive config) < elapsed_probe env j"
        "wnd_smap wnd = None \<or>
           (wnd_smap wnd = maxVerSmap (bcastMaxVer (probe (env j)) None None) \<and>
            supersedes (bcastMaxVer (probe (env j)) None None) l self)"
    by auto
  then show ?thesis
  proof cases
    case quiet
    then show ?thesis by simp
  next
    case probed
    have range: "2 * MaxKeepalive config < elapsed_probe env j"
      if "- (2 ^ 62) \<le> MaxKeepalive config" "MaxKeepalive config < 2 ^ 62"
    proof -
      from that have "wrap64 (2 * MaxKeepalive config) = 2 * MaxKeepalive config"
        by (intro wrap64_id) simp_all
      with probed(4) show ?thesis by simp
    qed
    from probed(5) have
      "\<forall>mx. wnd_smap wnd = Some mx \<longrightarrow>
         maxVerSmap (bcastMaxVer (probe (env j)) None None) = Some mx \<and>
         \<not> slowp (bcastMaxVer (probe (env j)) None None) \<and>
         UUID mx = UUID l \<and> Version l < Version mx \<and>
         (\<exists>pr. ProxySI mx = Some pr \<and> ID pr \<noteq> ID self) \<and> \<not> isPrimary mx self"
      using supersedes_other [of "bcastMaxVer (probe (env j)) None None" l self] by auto
    with probed(1-4) range show ?thesis by simp
  qed
qed

lemma window_elsewhere_run:
  "acceptRegistrations node_p1
     (steady (selfOnly node_p1)
        [reply node_p2 False (Some (mk_smap ''U'' 12 (Some node_p2) [node_p1, node_p2] [node_t1])) None])
     (selfOnly node_p1)
     (Some (mk_smap ''U'' 7 (Some node_p1) [node_p1, node_p2] [node_t1]))
     ten_seconds 0
   = Inr \<lparr>wnd_smap = Some (mk_smap ''U'' 12 (Some node_p2) [node_p1, node_p2] [node_t1]),
          wnd_exit = Superseded 2, wnd_probes = [2]\<rparr>"
  by (simp add: acceptRegistrations_def accept_loop_step steady_def ten_seconds_def
        elapsed_loop_def elapsed_probe_def second_def quo2_def selfOnly_def addProxy_def
        newSmap_def isPrimary_def CountTargets_def mk_smap_def supersedes_def otherPrimary_def
        bcastMaxVer_def bcast_init_def reply_def reelecting_def reduceBMD_def reduceSmap_def
        retain_def node_p1_def node_p2_def ID_def numeral_2_eq_2 wrap64_def)

theorem probe_once_never_self_witness:
  "acceptRegistrations node_p1
     (steady (selfOnly node_p1)
        [reply node_p2 False (Some (mk_smap ''U'' 12 (Some node_p2) [node_p1, node_p2] [node_t1])) None])
     (selfOnly node_p1)
     (Some (mk_smap ''U'' 7 (Some node_p1) [node_p1, node_p2] [node_t1]))
     ten_seconds 0
   = Inr \<lparr>wnd_smap = Some (mk_smap ''U'' 12 (Some node_p2) [node_p1, node_p2] [node_t1]),
          wnd_exit = Superseded 2, wnd_probes = [2]\<rparr>
   \<and> \<not> isPrimary (mk_smap ''U'' 12 (Some node_p2) [node_p1, node_p2] [node_t1]) node_p1
   \<and> 2 * MaxKeepalive ten_seconds
       < elapsed_probe (steady (selfOnly node_p1)
           [reply node_p2 False
              (Some (mk_smap ''U'' 12 (Some node_p2) [node_p1, node_p2] [node_t1])) None]) 2"
proof -
  have r: "- (2 ^ 62) \<le> MaxKeepalive ten_seconds \<and> MaxKeepalive ten_seconds < 2 ^ 62"
    by (simp add: ten_seconds_def second_def)
  from probe_once_never_self [OF window_elsewhere_run] window_elsewhere_run r
  show ?thesis by simp
qed

text \<open>Against C7 as stated: with \<open>ntargets = 0\<close>, a start-up timeout of ten seconds and no
  target ever registered, the loop is left at its sixth test, after five seconds.\<close>

theorem window_stops_at_half_counterexample:
  "acceptRegistrations node_p1 (steady (selfOnly node_p1) []) (selfOnly node_p1) None ten_seconds 0
     = Inr \<lparr>wnd_smap = None, wnd_exit = TimedOut 5, wnd_probes = []\<rparr>
   \<and> elapsed_loop (steady (selfOnly node_p1) []) 5 < Startup ten_seconds"
  by (simp add: acceptRegistrations_def accept_loop_step steady_def ten_seconds_def
        elapsed_loop_def second_def quo2_def selfOnly_def addProxy_def
        newSmap_def isPrimary_def CountTargets_def eval_nat_numeral)

text \<open>Claim C7, amended: with \<open>targetCount = 0\<close> the window never ends on the target count,
  and when it ends on its time bound without a supersede signal, then: if some tick of the
  run observed a registered target, the full \<open>startupTimeout\<close> has elapsed; if no tick
  observed one, the loop stops at the first test at which \<open>startupTimeout / 2\<close> has
  elapsed.\<close>

theorem window_length:
  assumes "acceptRegistrations self env smap loadedSmap config 0 = Inr wnd"
  shows "(\<forall>n. wnd_exit wnd \<noteq> ReachedTargets n)
     \<and> (\<forall>n. wnd_exit wnd = TimedOut n \<longrightarrow>
           wnd_smap wnd = None \<and>
           (if \<exists>j<n. 0 < CountTargets (cur (env j))
            then Startup config \<le> elapsed_loop env n
            else quo2 (Startup config) \<le> elapsed_loop env n \<and>
                 (\<forall>j<n. elapsed_loop env j < quo2 (Startup config))))"
proof -
  from assms have run:
    "accept_loop self env loadedSmap config 0 0 (quo2 (Startup config))
       (loadedSmap = None) [] = Inr wnd"
    by (simp add: acceptRegistrations_def split: if_splits)
  have a: "\<forall>n. wnd_exit wnd \<noteq> ReachedTargets n"
    using accept_loop_any_count [OF run] by simp
  have b: "wnd_smap wnd = None \<and>
           (if \<exists>j<n. 0 < CountTargets (cur (env j))
            then Startup config \<le> elapsed_loop env n
            else quo2 (Startup config) \<le> elapsed_loop env n \<and>
                 (\<forall>j<n. elapsed_loop env j < quo2 (Startup config)))"
    if t: "wnd_exit wnd = TimedOut n" for n
  proof (cases "\<exists>j<n. 0 < CountTargets (cur (env j))")
    case True
    then obtain j where "j < n" "0 < CountTargets (cur (env j))" by blast
    from accept_loop_after_target [OF run t _ this] True
      accept_loop_timeout_ge [OF run t]
    show ?thesis by simp
  next
    case False
    then have "\<forall>j. 0 \<le> j \<and> j < n \<longrightarrow> CountTargets (cur (env j)) = 0" by simp
    from accept_loop_half_window [OF run t this] False accept_loop_timeout_ge [OF run t]
    show ?thesis by auto
  qed
  from a b show ?thesis by blast
qed

theorem window_length_witness:
  "acceptRegistrations node_p1 (steady (mk_smap [] 1 (Some node_p1) [node_p1] [node_t1]) [])
     (selfOnly node_p1) None ten_seconds 0
     = Inr \<lparr>wnd_smap = None, wnd_exit = TimedOut 10, wnd_probes = []\<rparr>
   \<and> Startup ten_seconds \<le> elapsed_loop (steady (mk_smap [] 1 (Some node_p1) [node_p1] [node_t1]) []) 10"
proof -
  have run: "acceptRegistrations node_p1 (steady (mk_smap [] 1 (Some node_p1) [node_p1] [node_t1]) [])
     (selfOnly node_p1) None ten_seconds 0
     = Inr \<lparr>wnd_smap = None, wnd_exit = TimedOut 10, wnd_probes = []\<rparr>"
    by (simp add: acceptRegistrations_def accept_loop_step steady_def ten_seconds_def
          elapsed_loop_def second_def quo2_def selfOnly_def addProxy_def
          newSmap_def isPrimary_def CountTargets_def mk_smap_def eval_nat_numeral)
  have seen: "\<exists>j<10. 0 < CountTargets (cur (steady (mk_smap [] 1 (Some node_p1) [node_p1] [node_t1]) [] j))"
    by (rule exI [of _ 0]) (simp add: steady_def CountTargets_def mk_smap_def)
  from window_length [OF run] seen run show ?thesis
    by simp
qed

text \<open>Claim C10: if at a tick of the registration window the installed cluster map does
  not name this node as its primary, \<open>acceptRegistrations\<close> leaves its loop in that very
  iteration, without probing, and returns nil; so every tick the loop went past saw this
  node as primary.\<close>

theorem not_primary_leaves_window:
  "(elapsed_loop env i < wtime \<and> \<not> isPrimary (cur (env i)) self \<longrightarrow>
      accept_loop self env loadedSmap config ntargets i wtime checked sent
        = Inr \<lparr>wnd_smap = None, wnd_exit = NotPrimary i, wnd_probes = sent\<rparr>)
   \<and> (acceptRegistrations self env smap loadedSmap config ntargets = Inr wnd \<longrightarrow>
        (\<forall>j<exit_index (wnd_exit wnd). isPrimary (cur (env j)) self) \<and>
        (\<forall>k. wnd_exit wnd = NotPrimary k \<longrightarrow>
           wnd_smap wnd = None \<and> \<not> isPrimary (cur (env k)) self))"
proof -
  have a: "elapsed_loop env i < wtime \<and> \<not> isPrimary (cur (env i)) self \<longrightarrow>
      accept_loop self env loadedSmap config ntargets i wtime checked sent
        = Inr \<lparr>wnd_smap = None, wnd_exit = NotPrimary i, wnd_probes = sent\<rparr>"
    by (subst accept_loop_step) simp
  have b: "(\<forall>j<exit_index (wnd_exit wnd). isPrimary (cur (env j)) self) \<and>
        (\<forall>k. wnd_exit wnd = NotPrimary k \<longrightarrow>
           wnd_smap wnd = None \<and> \<not> isPrimary (cur (env k)) self)"
    if "acceptRegistrations self env smap loadedSmap config ntargets = Inr wnd"
  proof -
    from that have
      "accept_loop self env loadedSmap config ntargets 0 (quo2 (Startup config))
         (loadedSmap = None) [] = Inr wnd"
      by (simp add: acceptRegistrations_def split: if_splits)
    from accept_loop_primary [OF this] show ?thesis by simp
  qed
  from a b show ?thesis by blast
qed

theorem not_primary_leaves_window_witness:
  "acceptRegistrations node_p1 (demoted_at 2) (selfOnly node_p1) None ten_seconds 3
     = Inr \<lparr>wnd_smap = None, wnd_exit = NotPrimary 2, wnd_probes = []\<rparr>
   \<and> isPrimary (cur (demoted_at 2 0)) node_p1 \<and> isPrimary (cur (demoted_at 2 1)) node_p1"
proof -
  have run: "acceptRegistrations node_p1 (demoted_at 2) (selfOnly node_p1) None ten_seconds 3
     = Inr \<lparr>wnd_smap = None, wnd_exit = NotPrimary 2, wnd_probes = []\<rparr>"
    by (simp add: acceptRegistrations_def accept_loop_step demoted_at_def steady_def
          ten_seconds_def elapsed_loop_def second_def quo2_def selfOnly_def addProxy_def
          newSmap_def isPrimary_def CountTargets_def mk_smap_def node_p1_def node_p2_def ID_def
          eval_nat_numeral)
  from not_primary_leaves_window
    [where env = "demoted_at 2" and self = node_p1 and smap = "selfOnly node_p1"
       and loadedSmap = None and config = ten_seconds and ntargets = 3
       and wnd = "\<lparr>wnd_smap = None, wnd_exit = NotPrimary 2, wnd_probes = []\<rparr>"]
    run
  have "\<forall>j<2. isPrimary (cur (demoted_at 2 j)) node_p1"
    by (simp add: exit_index_def)
  then have "isPrimary (cur (demoted_at 2 0)) node_p1 \<and> isPrimary (cur (demoted_at 2 1)) node_p1"
    by simp
  with run show ?thesis by simp
qed

subsection \<open>The preliminary decision\<close>

lemma keyed_lookup: "keyed_by_id l \<Longrightarrow> map_of l k = Some n \<Longrightarrow> ID n = k"
  by (induction l) (auto simp: keyed_by_id_def split: if_splits)

lemma keyed_update: "keyed_by_id l \<Longrightarrow> keyed_by_id (AList.update (ID n) n l)"
  by (induction l) (auto simp: keyed_by_id_def)

lemma adoptEnv_cases:
  assumes "adoptEnv (Some s) envpid = Inr (m, pid)"
  obtains
    (unset) "envpid = []" "m = Some s" "pid = []"
  | (unknown) "envpid \<noteq> []" "GetProxy s envpid = None" "m = Some s" "pid = []"
  | (adopted) g c where "envpid \<noteq> []" "GetProxy s envpid = Some g" "ProxySI s = Some c"
      "ID c \<noteq> envpid" "m = Some (s\<lparr>ProxySI := Some g\<rparr>)" "pid = envpid"
  | (already) g c where "envpid \<noteq> []" "GetProxy s envpid = Some g" "ProxySI s = Some c"
      "ID c = envpid" "m = Some s" "pid = envpid"
proof (cases "envpid = []")
  case True
  with assms unset show ?thesis
    by (simp add: adoptEnv_def)
next
  case ne: False
  show ?thesis
  proof (cases "GetProxy s envpid")
    case None
    with assms ne unknown show ?thesis
      by (simp add: adoptEnv_def)
  next
    case (Some g)
    with assms ne obtain c where c: "ProxySI s = Some c"
      by (cases "ProxySI s") (simp_all add: adoptEnv_def)
    show ?thesis
    proof (cases "ID c = envpid")
      case True
      have "adoptEnv (Some s) envpid = Inr (Some s, envpid)"
        using ne Some c True by (simp add: adoptEnv_def)
      with assms have "m = Some s" "pid = envpid" by simp_all
      with ne Some c True show ?thesis by (intro already [of g c])
    next
      case False
      have "adoptEnv (Some s) envpid = Inr (Some (s\<lparr>ProxySI := Some g\<rparr>), envpid)"
        using ne Some c False by (simp add: adoptEnv_def)
      with assms have "m = Some (s\<lparr>ProxySI := Some g\<rparr>)" "pid = envpid" by simp_all
      with ne Some c False show ?thesis by (intro adopted [of g c])
    qed
  qed
qed

text \<open>Against C8 as stated: the environment names a primary id that differs from this
  node's id but is not a gateway of the loaded map; the loaded map names this node as
  primary, and \<open>determineRole\<close> does not decide secondary.\<close>

theorem unknown_env_primary_counterexample:
  "determineRole node_p1 ''p9'' False (mk_smap ''U'' 7 (Some node_p1) [node_p1] [node_t1]) True
     = Inr (Some (mk_smap ''U'' 7 (Some node_p1) [node_p1] [node_t1]), False)
   \<and> ''p9'' \<noteq> ID node_p1"
  by (simp add: determineRole_def adoptEnv_def addProxy_def GetProxy_def mk_smap_def
        isPrimary_def node_p1_def ID_def)

text \<open>Claim C8, amended: whenever \<open>determineRole\<close> decides (it neither exits on the invalid
  combination of the two variables nor fails), it decides secondary if and only if: the
  environment names a primary id different from this node's id and that id is not ignored
  (no cluster map was loaded, or the id is a gateway of the loaded map); or a cluster map
  was loaded (after adopting an environment-named known gateway as its primary) and this
  node is not its primary; or no environment primary id is set, no cluster map was loaded
  and \<open>AIS_IS_PRIMARY\<close> is not true.\<close>

theorem role_decision:
  assumes "determineRole self envpid envprimary smap loaded = Inr (m, secondary)"
    and "keyed_by_id (Pmap smap)"
  shows "secondary =
     ((envpid \<noteq> [] \<and> envpid \<noteq> ID self \<and>
         (loaded \<longrightarrow> GetProxy (addProxy self smap) envpid \<noteq> None))
      \<or> (loaded \<and> (\<exists>mm. m = Some mm \<and> \<not> isPrimary mm self))
      \<or> (envpid = [] \<and> \<not> loaded \<and> \<not> envprimary))"
proof (cases loaded)
  case False
  with assms(1) show ?thesis
    by (auto simp: determineRole_def adoptEnv_def Let_def split: if_splits)
next
  case True
  let ?s = "addProxy self smap"
  from assms(1) True obtain pid where
    a: "adoptEnv (Some ?s) envpid = Inr (m, pid)" and
    sec: "secondary = (if pid \<noteq> [] then pid \<noteq> ID self
                       else (case m of Some mm \<Rightarrow> \<not> isPrimary mm self | None \<Rightarrow> \<not> envprimary))"
    by (auto simp: determineRole_def Let_def split: if_splits sum.splits)
  have k: "keyed_by_id (Pmap ?s)"
    using assms(2) by (simp add: addProxy_def keyed_update)
  from a show ?thesis
  proof (cases rule: adoptEnv_cases)
    case unset
    with sec True show ?thesis by simp
  next
    case unknown
    with sec True show ?thesis by simp
  next
    case (adopted g c)
    from keyed_lookup [OF k] adopted(2) have "ID g = envpid"
      by (simp add: GetProxy_def)
    with adopted sec True show ?thesis
      by (auto simp: isPrimary_def)
  next
    case (already g c)
    with sec True show ?thesis
      by (auto simp: isPrimary_def)
  qed
qed

theorem role_decision_witness:
  "determineRole node_p1 ''p2'' False (mk_smap ''U'' 7 (Some node_p1) [node_p1, node_p2] [node_t1]) True
     = Inr (Some (mk_smap ''U'' 7 (Some node_p2) [node_p1, node_p2] [node_t1]), True)
   \<and> \<not> isPrimary (mk_smap ''U'' 7 (Some node_p2) [node_p1, node_p2] [node_t1]) node_p1"
proof -
  have run: "determineRole node_p1 ''p2'' False
       (mk_smap ''U'' 7 (Some node_p1) [node_p1, node_p2] [node_t1]) True
     = Inr (Some (mk_smap ''U'' 7 (Some node_p2) [node_p1, node_p2] [node_t1]), True)"
    by (simp add: determineRole_def adoptEnv_def addProxy_def GetProxy_def mk_smap_def
          isPrimary_def node_p1_def node_p2_def ID_def)
  have k: "keyed_by_id (Pmap (mk_smap ''U'' 7 (Some node_p1) [node_p1, node_p2] [node_t1]))"
    by (simp add: keyed_by_id_def mk_smap_def)
  from role_decision [OF run k] show ?thesis
    using run
    by (simp add: addProxy_def GetProxy_def mk_smap_def node_p1_def node_p2_def ID_def
          isPrimary_def)
qed

subsection \<open>What the start-up code installs\<close>

lemma puts_install_bmd: "puts (install_bmd mb ow) = puts ow"
  by (simp add: install_bmd_def split: option.splits)

lemma joinOrExit_puts: "joinOrExit w m ow = Inr ow' \<Longrightarrow> puts ow' = puts ow @ [m]"
  by (auto simp: joinOrExit_def secondaryStartup_def put_smap_def Let_def split: if_splits)

lemma classify_puts:
  "classify Compare merge self ow smap mxs = Inr ow' \<Longrightarrow> \<exists>rest. puts ow' = puts ow @ rest"
  by (auto simp: classify_def put_smap_def Let_def split: option.splits if_splits prod.splits)

lemma discoverMeta_puts:
  "discoverMeta Compare merge resolveUUIDBMD self bcast nrounds ow smap = Inr ow' \<Longrightarrow>
     \<exists>rest. puts ow' = puts ow @ rest"
  by (auto simp: discoverMeta_def puts_install_bmd split: sum.splits prod.splits
        dest!: classify_puts)

lemma mergeLoaded_puts:
  "mergeLoaded merge ow loadedSmap = (ow', smap') \<Longrightarrow> \<exists>rest. puts ow' = puts ow @ rest"
  by (auto simp: mergeLoaded_def put_smap_def Let_def split: option.splits if_splits prod.splits)

lemma finalize_puts:
  "finalize w self ow = Inr ow' \<Longrightarrow> \<exists>rest. puts ow' = puts ow @ rest"
  by (auto simp: finalize_def put_smap_def Let_def split: option.splits if_splits
        dest!: joinOrExit_puts)

lemma primaryStartup_first_put:
  assumes "primaryStartup w Compare merge resolveUUIDBMD self ow loadedSmap config ntargets = Inr ow'"
  shows "\<exists>rest. puts ow' = puts ow @ selfOnly self # rest"
proof -
  let ?ow1 = "put_smap (selfOnly self) ow"
  have p1: "puts ?ow1 = puts ow @ [selfOnly self]"
    by (simp add: put_smap_def)
  let ?wnd = "if skipStartup w then Inr None
              else (case acceptRegistrations self (ticks w) (selfOnly self) loadedSmap config ntargets of
                      Inl e \<Rightarrow> Inl e | Inr wnd \<Rightarrow> Inr (wnd_smap wnd))"
  from assms obtain r where r: "?wnd = Inr r"
    by (cases ?wnd) (simp_all add: primaryStartup_def Let_def)
  show ?thesis
  proof (cases r)
    case (Some mx)
    with assms r have
      "joinOrExit w (addProxy self mx) (put_smap (addProxy self mx) ?ow1) = Inr ow'"
      by (simp add: primaryStartup_def Let_def)
    from joinOrExit_puts [OF this] show ?thesis
      by (simp add: put_smap_def)
  next
    case None
    obtain ow2 smap2 where
      m: "mergeLoaded merge (?ow1\<lparr>owner_smap := registered w (owner_smap ?ow1)\<rparr>) loadedSmap
            = (ow2, smap2)"
      by (cases "mergeLoaded merge (?ow1\<lparr>owner_smap := registered w (owner_smap ?ow1)\<rparr>) loadedSmap")
    from assms r None m obtain ow3 where
      d: "discoverMeta Compare merge resolveUUIDBMD self (bcasts w) (rounds w) ow2 smap2 = Inr ow3"
      and f: "finalize w self ow3 = Inr ow'"
      by (cases "discoverMeta Compare merge resolveUUIDBMD self (bcasts w) (rounds w) ow2 smap2")
         (simp_all add: primaryStartup_def Let_def)
    from mergeLoaded_puts [OF m] obtain r1 where "puts ow2 = puts ow @ selfOnly self # r1"
      by (auto simp: put_smap_def)
    moreover from discoverMeta_puts [OF d] obtain r2 where "puts ow3 = puts ow2 @ r2" ..
    moreover from finalize_puts [OF f] obtain r3 where "puts ow' = puts ow3 @ r3" ..
    ultimately show ?thesis by simp
  qed
qed

lemma primaryStartup_change_of_mind:
  assumes "\<not> skipStartup w"
    and "acceptRegistrations self (ticks w) (selfOnly self) loadedSmap config ntargets = Inr wnd"
    and "wnd_smap wnd = Some mx"
    and "primaryStartup w Compare merge resolveUUIDBMD self ow loadedSmap config ntargets = Inr ow'"
  shows "puts ow' = puts ow @ [selfOnly self, addProxy self mx, addProxy self mx]"
proof -
  from assms have
    "joinOrExit w (addProxy self mx) (put_smap (addProxy self mx) (put_smap (selfOnly self) ow))
       = Inr ow'"
    by (simp add: primaryStartup_def Let_def)
  from joinOrExit_puts [OF this] show ?thesis
    by (simp add: put_smap_def)
qed

lemma determineRole_loaded:
  assumes "determineRole self pid prim smap True = Inr (m, secondary)"
  shows "\<exists>mm. m = Some mm \<and> has_proxy mm self"
proof -
  from assms obtain pid' where a: "adoptEnv (Some (addProxy self smap)) pid = Inr (m, pid')"
    by (auto simp: determineRole_def Let_def split: if_splits sum.splits)
  have h: "has_proxy (addProxy self smap) self" by (rule has_proxy_addProxy)
  from a show ?thesis
  proof (cases rule: adoptEnv_cases)
    case (adopted g c)
    with h show ?thesis by (simp add: has_proxy_def)
  qed (use h in simp_all)
qed

lemma selfOnly_only_self: "Pmap (selfOnly self) = [(ID self, self)] \<and> has_proxy (selfOnly self) self"
  by (simp add: selfOnly_def addProxy_def newSmap_def has_proxy_def)


text \<open>Against C9 as stated: a gateway that starts with nothing on disk and no primary
  hint takes the secondary track and installs a fresh, empty cluster map, which does not
  hold this node.\<close>

theorem fresh_secondary_counterexample:
  "bootstrap quiet_world differs_by_node merge_adds_one no_bmd node_p1 (empty_owner newSmap)
     ten_seconds 0
     = Inr \<lparr>owner_smap = newSmap, owner_bmd = None, puts = [newSmap]\<rparr>
   \<and> \<not> has_proxy newSmap node_p1"
  by (simp add: bootstrap_def quiet_world_def determineRole_def adoptEnv_def
        secondaryStartup_def put_smap_def empty_owner_def has_proxy_def newSmap_def Let_def)

text \<open>Claim C9, amended: the cluster maps installed at the four places the claim names
  hold this node in their gateway map: the loaded map gets this node inserted in
  \<open>determineRole\<close>; the first map \<open>primaryStartup\<close> installs holds this node and nothing
  else; the map adopted when the registration window returns a superseding map, and the
  map adopted when discovery demotes this node, get this node inserted before they are
  installed.  The secondary track makes no such insertion.\<close>

theorem installed_maps_hold_self:
  "(determineRole self pid prim smap True = Inr (m, secondary) \<longrightarrow>
      (\<exists>mm. m = Some mm \<and> has_proxy mm self))
   \<and> Pmap (selfOnly self) = [(ID self, self)]
   \<and> (primaryStartup w Compare merge resolveUUIDBMD self ow loadedSmap config ntargets = Inr ow' \<longrightarrow>
        (\<exists>rest. puts ow' = puts ow @ selfOnly self # rest) \<and>
        (\<not> skipStartup w \<and>
         acceptRegistrations self (ticks w) (selfOnly self) loadedSmap config ntargets = Inr wnd \<and>
         wnd_smap wnd = Some mx \<longrightarrow>
           puts ow' = puts ow @ [selfOnly self, addProxy self mx, addProxy self mx]))
   \<and> has_proxy (addProxy self mx) self
   \<and> (uncoverMeta resolveUUIDBMD bcast nrounds = Inr (Some mx, mb) \<and>
       Compare smap mx = (True, sameVersion, eq) \<and> \<not> (eq \<and> sameVersion) \<and>
       otherPrimary mx self \<and> Version smap < Version mx \<longrightarrow>
         discoverMeta Compare merge resolveUUIDBMD self bcast nrounds ow smap
           = Inr (put_smap (addProxy self mx) (install_bmd mb ow)))"
proof -
  have a: "determineRole self pid prim smap True = Inr (m, secondary) \<longrightarrow>
      (\<exists>mm. m = Some mm \<and> has_proxy mm self)"
    using determineRole_loaded by blast
  have b: "primaryStartup w Compare merge resolveUUIDBMD self ow loadedSmap config ntargets = Inr ow' \<longrightarrow>
        (\<exists>rest. puts ow' = puts ow @ selfOnly self # rest) \<and>
        (\<not> skipStartup w \<and>
         acceptRegistrations self (ticks w) (selfOnly self) loadedSmap config ntargets = Inr wnd \<and>
         wnd_smap wnd = Some mx \<longrightarrow>
           puts ow' = puts ow @ [selfOnly self, addProxy self mx, addProxy self mx])"
  proof (intro impI conjI)
    assume r: "primaryStartup w Compare merge resolveUUIDBMD self ow loadedSmap config ntargets = Inr ow'"
    then show "\<exists>rest. puts ow' = puts ow @ selfOnly self # rest"
      by (rule primaryStartup_first_put)
    assume "\<not> skipStartup w \<and>
         acceptRegistrations self (ticks w) (selfOnly self) loadedSmap config ntargets = Inr wnd \<and>
         wnd_smap wnd = Some mx"
    then have "\<not> skipStartup w"
      "acceptRegistrations self (ticks w) (selfOnly self) loadedSmap config ntargets = Inr wnd"
      "wnd_smap wnd = Some mx"
      by simp_all
    from this r show "puts ow' = puts ow @ [selfOnly self, addProxy self mx, addProxy self mx]"
      by (rule primaryStartup_change_of_mind)
  qed
  have c: "uncoverMeta resolveUUIDBMD bcast nrounds = Inr (Some mx, mb) \<and>
       Compare smap mx = (True, sameVersion, eq) \<and> \<not> (eq \<and> sameVersion) \<and>
       otherPrimary mx self \<and> Version smap < Version mx \<longrightarrow>
         discoverMeta Compare merge resolveUUIDBMD self bcast nrounds ow smap
           = Inr (put_smap (addProxy self mx) (install_bmd mb ow))"
  proof (intro impI, elim conjE)
    assume h: "uncoverMeta resolveUUIDBMD bcast nrounds = Inr (Some mx, mb)"
      "Compare smap mx = (True, sameVersion, eq)" "\<not> (eq \<and> sameVersion)"
      "otherPrimary mx self" and v: "Version smap < Version mx"
    have "discoverMeta Compare merge resolveUUIDBMD self bcast nrounds ow smap
           = (if Version smap < Version mx
              then Inr (put_smap (addProxy self mx) (install_bmd mb ow))
              else Inl (ExitCIE 20))"
      using h by (rule discoverMeta_other_primary)
    with v show "discoverMeta Compare merge resolveUUIDBMD self bcast nrounds ow smap
           = Inr (put_smap (addProxy self mx) (install_bmd mb ow))"
      by simp
  qed
  from a b c selfOnly_only_self has_proxy_addProxy show ?thesis by blast
qed

lemma change_of_mind_run:
  "primaryStartup elsewhere_world differs_by_node merge_adds_one no_bmd node_p1
     (empty_owner newSmap)
     (Some (mk_smap ''U'' 7 (Some node_p1) [node_p1, node_p2] [node_t1])) ten_seconds 0
   = Inr \<lparr>owner_smap = mk_smap ''U'' 12 (Some node_p2) [node_p1, node_p2] [node_t1],
          owner_bmd = None,
          puts = [selfOnly node_p1,
                  mk_smap ''U'' 12 (Some node_p2) [node_p1, node_p2] [node_t1],
                  mk_smap ''U'' 12 (Some node_p2) [node_p1, node_p2] [node_t1]]\<rparr>"
proof -
  have t: "ticks elsewhere_world = steady (selfOnly node_p1)
        [reply node_p2 False
           (Some (mk_smap ''U'' 12 (Some node_p2) [node_p1, node_p2] [node_t1])) None]"
    by (simp add: elsewhere_world_def)
  have s: "\<not> skipStartup elsewhere_world" "joins elsewhere_world = (\<lambda>m. True)"
    by (simp_all add: elsewhere_world_def quiet_world_def)
  have p: "addProxy node_p1 (mk_smap ''U'' 12 (Some node_p2) [node_p1, node_p2] [node_t1])
        = mk_smap ''U'' 12 (Some node_p2) [node_p1, node_p2] [node_t1]"
    by (simp add: addProxy_def mk_smap_def node_p1_def node_p2_def ID_def)
  show ?thesis
    by (simp add: primaryStartup_def t s window_elsewhere_run p joinOrExit_def
          secondaryStartup_def put_smap_def empty_owner_def Let_def)
qed

theorem installed_maps_hold_self_witness:
  "puts (projr (primaryStartup elsewhere_world differs_by_node merge_adds_one no_bmd node_p1
     (empty_owner newSmap)
     (Some (mk_smap ''U'' 7 (Some node_p1) [node_p1, node_p2] [node_t1])) ten_seconds 0))
   = [selfOnly node_p1,
      addProxy node_p1 (mk_smap ''U'' 12 (Some node_p2) [node_p1, node_p2] [node_t1]),
      addProxy node_p1 (mk_smap ''U'' 12 (Some node_p2) [node_p1, node_p2] [node_t1])]
   \<and> has_proxy (addProxy node_p1 (mk_smap ''U'' 12 (Some node_p2) [node_p1, node_p2] [node_t1]))
        node_p1"
proof -
  have t: "ticks elsewhere_world = steady (selfOnly node_p1)
        [reply node_p2 False
           (Some (mk_smap ''U'' 12 (Some node_p2) [node_p1, node_p2] [node_t1])) None]"
    by (simp add: elsewhere_world_def)
  have s: "\<not> skipStartup elsewhere_world"
    by (simp add: elsewhere_world_def quiet_world_def)
  let ?mx = "mk_smap ''U'' 12 (Some node_p2) [node_p1, node_p2] [node_t1]"
  let ?wnd = "\<lparr>wnd_smap = Some ?mx, wnd_exit = Superseded 2, wnd_probes = [2]\<rparr>"
  let ?ow' = "\<lparr>owner_smap = ?mx, owner_bmd = None, puts = [selfOnly node_p1, ?mx, ?mx]\<rparr>"
  note inst = installed_maps_hold_self
    [where w = elsewhere_world and self = node_p1 and Compare = differs_by_node
       and merge = merge_adds_one and resolveUUIDBMD = no_bmd and ow = "empty_owner newSmap"
       and loadedSmap = "Some (mk_smap ''U'' 7 (Some node_p1) [node_p1, node_p2] [node_t1])"
       and config = ten_seconds and ntargets = 0 and mx = ?mx and wnd = ?wnd and ow' = ?ow'
       and pid = "[]" and prim = False and smap = newSmap and m = None and secondary = False
       and bcast = "\<lambda>i. []" and nrounds = 0 and mb = None and sameVersion = False
       and eq = False]
  from inst have
    imp: "primaryStartup elsewhere_world differs_by_node merge_adds_one no_bmd node_p1
            (empty_owner newSmap)
            (Some (mk_smap ''U'' 7 (Some node_p1) [node_p1, node_p2] [node_t1])) ten_seconds 0
          = Inr ?ow' \<longrightarrow>
          (\<not> skipStartup elsewhere_world \<and>
           acceptRegistrations node_p1 (ticks elsewhere_world) (selfOnly node_p1)
             (Some (mk_smap ''U'' 7 (Some node_p1) [node_p1, node_p2] [node_t1])) ten_seconds 0
             = Inr ?wnd \<and>
           wnd_smap ?wnd = Some ?mx \<longrightarrow>
             puts ?ow' = puts (empty_owner newSmap)
               @ [selfOnly node_p1, addProxy node_p1 ?mx, addProxy node_p1 ?mx])"
    and hp: "has_proxy (addProxy node_p1 ?mx) node_p1"
    by blast+
  have w: "acceptRegistrations node_p1 (ticks elsewhere_world) (selfOnly node_p1)
             (Some (mk_smap ''U'' 7 (Some node_p1) [node_p1, node_p2] [node_t1])) ten_seconds 0
             = Inr ?wnd"
    unfolding t by (rule window_elsewhere_run)
  have "wnd_smap ?wnd = Some ?mx" by simp
  with imp change_of_mind_run s w have
    "puts ?ow' = puts (empty_owner newSmap)
               @ [selfOnly node_p1, addProxy node_p1 ?mx, addProxy node_p1 ?mx]"
    by blast
  then have "[selfOnly node_p1, ?mx, ?mx]
      = [selfOnly node_p1, addProxy node_p1 ?mx, addProxy node_p1 ?mx]"
    by (simp add: empty_owner_def)
  with hp show ?thesis
    unfolding change_of_mind_run by simp
qed

end
